theory Spec2Isabelle
  imports Complex_Main "HOL-Library.Multiset" "HOL-Library.Code_Target_Numeral"
begin

section \<open>Python values, errors and list operations\<close>

text \<open>
  Every exception a stage can raise is a value; a stage returns \<open>py_error + result\<close>
  with \<open>Inl\<close> for the exception. Python's \<open>float\<close> is modelled by \<open>rat\<close>: every float
  is a rational and comparisons of floats are exact; the rounding of a float product
  or sum is not modelled (arithmetic on \<open>rat\<close> is exact).
\<close>

datatype py_error =
    ValueError
  | RuntimeError
  | IndexError
  | OverflowError
  | FileNotFoundError
  | ColumnNotFoundError

definition res_bind :: "'e + 'a \<Rightarrow> ('a \<Rightarrow> 'e + 'b) \<Rightarrow> 'e + 'b" where
  "res_bind m f = (case m of Inl e \<Rightarrow> Inl e | Inr x \<Rightarrow> f x)"

definition py_int :: "rat \<Rightarrow> int" where
  \<comment> \<open>\<open>int(x)\<close> on a float truncates towards zero.\<close>
  "py_int x = (if 0 \<le> x then \<lfloor>x\<rfloor> else \<lceil>x\<rceil>)"

definition py_slice :: "'a list \<Rightarrow> int \<Rightarrow> int \<Rightarrow> 'a list" where
  \<comment> \<open>\<open>xs[i:j]\<close>: a negative bound counts from the end, both bounds are clipped.\<close>
  "py_slice xs i j =
     (let n = int (length xs);
          lo = (if i < 0 then max 0 (i + n) else min i n);
          hi = (if j < 0 then max 0 (j + n) else min j n)
      in take (nat (hi - lo)) (drop (nat lo) xs))"

definition py_get :: "'a list \<Rightarrow> nat \<Rightarrow> py_error + 'a" where
  \<comment> \<open>\<open>xs[i]\<close> for an index \<open>i \<ge> 0\<close>.\<close>
  "py_get xs i = (if i < length xs then Inr (xs ! i) else Inl IndexError)"

definition py_set :: "'a list \<Rightarrow> nat \<Rightarrow> 'a \<Rightarrow> py_error + 'a list" where
  \<comment> \<open>\<open>xs[i] = v\<close> for an index \<open>i \<ge> 0\<close>.\<close>
  "py_set xs i v = (if i < length xs then Inr (xs[i := v]) else Inl IndexError)"

section \<open>The random module\<close>

text \<open>
  The generator state is the sequence of raw draws it will still produce (an exhausted
  sequence draws 0). The library functions are modelled by their contract on top of
  one primitive, \<open>randbelow\<close>: \<open>randbelow n\<close> consumes one raw draw and returns a number
  below \<open>n\<close>. The theorems below hold for every sequence of raw draws, that is for
  every behaviour of the generator.
\<close>

type_synonym rng = "nat list"

fun next_raw :: "rng \<Rightarrow> nat \<times> rng" where
  "next_raw [] = (0, [])"
| "next_raw (x # g) = (x, g)"

definition randbelow :: "nat \<Rightarrow> rng \<Rightarrow> nat \<times> rng" where
  "randbelow n g = (case next_raw g of (x, g') \<Rightarrow> (x mod n, g'))"

definition random_random :: "rng \<Rightarrow> rat \<times> rng" where
  \<comment> \<open>\<open>random.random()\<close>: a multiple of \<open>2^-53\<close> in \<open>[0, 1)\<close>.\<close>
  "random_random g = (case next_raw g of (x, g') \<Rightarrow> (of_nat (x mod 2 ^ 53) / 2 ^ 53, g'))"

definition random_randrange :: "nat \<Rightarrow> rng \<Rightarrow> py_error + (nat \<times> rng)" where
  \<comment> \<open>\<open>random.randrange(n)\<close> for \<open>n = len(...)\<close>.\<close>
  "random_randrange n g = (if n = 0 then Inl ValueError else Inr (randbelow n g))"

definition random_randint :: "int \<Rightarrow> int \<Rightarrow> rng \<Rightarrow> py_error + (int \<times> rng)" where
  \<comment> \<open>\<open>random.randint(a, b)\<close>: an empty range raises.\<close>
  "random_randint a b g =
     (if b < a then Inl ValueError
      else case randbelow (nat (b - a + 1)) g of (r, g') \<Rightarrow> Inr (a + int r, g'))"

definition random_choice :: "'a list \<Rightarrow> rng \<Rightarrow> py_error + ('a \<times> rng)" where
  \<comment> \<open>\<open>random.choice(seq)\<close>: an empty sequence raises.\<close>
  "random_choice xs g =
     (if xs = [] then Inl IndexError
      else case randbelow (length xs) g of (r, g') \<Rightarrow> Inr (xs ! r, g'))"

definition random_uniform :: "rat \<Rightarrow> rat \<Rightarrow> rng \<Rightarrow> rat \<times> rng" where
  \<comment> \<open>\<open>random.uniform(a, b) = a + (b - a) * random()\<close>.\<close>
  "random_uniform a b g = (case random_random g of (u, g') \<Rightarrow> (a + (b - a) * u, g'))"

fun shuffle_loop :: "nat \<Rightarrow> 'a list \<Rightarrow> rng \<Rightarrow> 'a list \<times> rng" where
  \<comment> \<open>\<open>for i in reversed(range(1, len(x))): j = randbelow(i + 1); x[i], x[j] = x[j], x[i]\<close>\<close>
  "shuffle_loop 0 xs g = (xs, g)"
| "shuffle_loop (Suc i) xs g =
     (case randbelow (Suc (Suc i)) g of
        (j, g') \<Rightarrow> shuffle_loop i (xs[Suc i := xs ! j, j := xs ! Suc i]) g')"

definition random_shuffle :: "'a list \<Rightarrow> rng \<Rightarrow> 'a list \<times> rng" where
  "random_shuffle xs g = shuffle_loop (length xs - 1) xs g"

fun sample_loop :: "nat \<Rightarrow> 'a list \<Rightarrow> rng \<Rightarrow> 'a list \<times> rng" where
  \<comment> \<open>Selection without replacement from the pool of positions not yet taken:
      \<open>j = randbelow(n - i); result[i] = pool[j]; pool[j] = pool[n - i - 1]\<close>.\<close>
  "sample_loop 0 pool g = ([], g)"
| "sample_loop (Suc k) pool g =
     (case randbelow (length pool) g of
        (j, g') \<Rightarrow>
          (case sample_loop k (butlast (pool[j := last pool])) g' of
             (res, g'') \<Rightarrow> (pool ! j # res, g'')))"

definition random_sample :: "'a list \<Rightarrow> int \<Rightarrow> rng \<Rightarrow> py_error + ('a list \<times> rng)" where
  \<comment> \<open>\<open>random.sample(population, k)\<close>: raises unless \<open>0 \<le> k \<le> len(population)\<close>.\<close>
  "random_sample population k g =
     (if k < 0 \<or> int (length population) < k then Inl ValueError
      else Inr (sample_loop (nat k) population g))"

fun rng_replicate :: "nat \<Rightarrow> (rng \<Rightarrow> py_error + ('a \<times> rng)) \<Rightarrow> rng \<Rightarrow> py_error + ('a list \<times> rng)" where
  \<comment> \<open>\<open>[f() for _ in range(n)]\<close> for an \<open>f\<close> that draws from the generator.\<close>
  "rng_replicate 0 f g = Inr ([], g)"
| "rng_replicate (Suc n) f g =
     res_bind (f g) (\<lambda>(x, g').
     res_bind (rng_replicate n f g') (\<lambda>(xs, g''). Inr (x # xs, g'')))"

section \<open>The bronze tables\<close>

text \<open>
  A table is a data frame: a record of columns. The columns of one frame all have the
  frame's height (\<open>wf_tx\<close> for the transaction table). A timestamp is the number of
  microseconds since the epoch. The infrastructure columns and the label of the
  transaction table are absent (\<open>None\<close>) until the stage that adds them has run. The
  column names of the entity tables are also column names of the transaction table;
  the entity tables' are written qualified (\<open>people_frame.person_id\<close>).
\<close>

record people_frame =
  person_id :: "string list"
  created_at :: "int list"

record merchants_frame =
  merchant_id :: "string list"
  mcc :: "string list"
  country :: "string list"

record devices_frame =
  device_id :: "string list"
  device_type :: "string list"

record ips_frame =
  ip :: "string list"

record cards_frame =
  card_hash :: "string list"

record addresses_frame =
  address_hash :: "string list"
  postcode :: "string list"

record tx_frame =
  tx_id :: "string list"
  ts :: "int list"
  amount :: "rat list"
  currency :: "string list"
  person_id :: "string list"
  merchant_id :: "string list"
  device_id :: "string list option"
  ip :: "string list option"
  card_hash :: "string list option"
  address_hash :: "string list option"
  is_fraud :: "int list option"

definition height :: "tx_frame \<Rightarrow> nat" where
  "height tx = length (tx_id tx)"

definition opt_height :: "nat \<Rightarrow> 'a list option \<Rightarrow> bool" where
  "opt_height n col = (case col of None \<Rightarrow> True | Some xs \<Rightarrow> length xs = n)"

definition wf_tx :: "tx_frame \<Rightarrow> bool" where
  "wf_tx tx =
     (length (ts tx) = height tx \<and> length (amount tx) = height tx
      \<and> length (currency tx) = height tx \<and> length (person_id tx) = height tx
      \<and> length (merchant_id tx) = height tx
      \<and> opt_height (height tx) (device_id tx) \<and> opt_height (height tx) (ip tx)
      \<and> opt_height (height tx) (card_hash tx) \<and> opt_height (height tx) (address_hash tx)
      \<and> opt_height (height tx) (is_fraud tx))"

text \<open>The directory \<open>data/bronze\<close>: one parquet file per table, absent until written.\<close>

record bronze =
  people :: "people_frame option"
  merchants :: "merchants_frame option"
  devices :: "devices_frame option"
  ips :: "ips_frame option"
  cards :: "cards_frame option"
  addresses :: "addresses_frame option"
  transactions :: "tx_frame option"

definition read_parquet :: "'a option \<Rightarrow> py_error + 'a" where
  "read_parquet f = (case f of None \<Rightarrow> Inl FileNotFoundError | Some t \<Rightarrow> Inr t)"

definition column :: "'a list option \<Rightarrow> py_error + 'a list" where
  \<comment> \<open>\<open>tx["name"].to_list()\<close> for a column that may be absent.\<close>
  "column c = (case c of None \<Rightarrow> Inl ColumnNotFoundError | Some xs \<Rightarrow> Inr xs)"

definition random_seed :: "(int \<Rightarrow> rng) \<Rightarrow> int \<Rightarrow> rng \<Rightarrow> rng" where
  \<comment> \<open>\<open>random.seed(s)\<close>: the state the seed determines (\<open>mt\<close>, the library's
      initialisation) replaces the state the generator had.\<close>
  "random_seed mt s g = mt s"

text \<open>Timestamps: \<open>datetime + timedelta\<close> raises outside the years 1 to 9999.\<close>

definition datetime_min :: int where
  "datetime_min = - 62135596800000000"

definition datetime_max :: int where
  "datetime_max = 253402300799999999"

definition timedelta_hours :: "int \<Rightarrow> py_error + int" where
  \<comment> \<open>\<open>timedelta(hours=h)\<close>, in microseconds; at most 999999999 days either way.\<close>
  "timedelta_hours h =
     (if h < - 23999999976 \<or> 23999999999 < h then Inl OverflowError
      else Inr (h * 3600000000))"

definition timedelta_seconds :: "int \<Rightarrow> py_error + int" where
  "timedelta_seconds s =
     (if s < - 86399999913600 \<or> 86399999999999 < s then Inl OverflowError
      else Inr (s * 1000000))"

definition datetime_add :: "int \<Rightarrow> int \<Rightarrow> py_error + int" where
  "datetime_add t d =
     (if t + d < datetime_min \<or> datetime_max < t + d then Inl OverflowError
      else Inr (t + d))"

text \<open>Identifiers: \<open>f"{prefix}{i:0{width}d}"\<close> for \<open>i \<ge> 0\<close>.\<close>

definition digit_char :: "nat \<Rightarrow> char" where
  "digit_char d = ''0123456789'' ! (d mod 10)"

fun decimal :: "nat \<Rightarrow> string" where
  "decimal n = (if n < 10 then [digit_char n] else decimal (n div 10) @ [digit_char (n mod 10)])"

definition zero_pad :: "nat \<Rightarrow> string \<Rightarrow> string" where
  "zero_pad width s = replicate (width - length s) (CHR ''0'') @ s"

definition make_ids :: "string \<Rightarrow> int \<Rightarrow> nat \<Rightarrow> string list" where
  \<comment> \<open>\<open>_make_ids\<close>: \<open>[f"{prefix}{i:0{width}d}" for i in range(n)]\<close>\<close>
  "make_ids prefix n width = map (\<lambda>i. prefix @ zero_pad width (decimal i)) [0..<nat n]"

section \<open>Entity Generator: generate_bronze.py\<close>

record SimConfig =
  seed :: int
  n_people :: int
  n_merchants :: int
  n_transactions :: int

definition SimConfig_default :: SimConfig where
  "SimConfig_default = \<lparr>seed = 42, n_people = 2000, n_merchants = 120, n_transactions = 50000\<rparr>"

definition py_round2 :: "rat \<Rightarrow> rat" where
  \<comment> \<open>\<open>round(x, 2)\<close>: to the nearest hundredth, a tie to the even one.\<close>
  "py_round2 x =
     (let q = x * 100; f = \<lfloor>q\<rfloor>; d = q - of_int f
      in of_int (if d < 1 / 2 then f else if 1 / 2 < d then f + 1
                 else if even f then f else f + 1) / 100)"

definition generate_people :: "SimConfig \<Rightarrow> people_frame" where
  "generate_people cfg =
     \<lparr>people_frame.person_id = make_ids ''P'' (n_people cfg) 6,
      created_at = replicate (nat (n_people cfg)) 1704067200000000\<rparr>"

definition mccs :: "string list" where
  "mccs = [''5411'', ''5812'', ''5999'', ''5732'', ''4111'', ''4814'', ''6011'']"

definition generate_merchants :: "SimConfig \<Rightarrow> rng \<Rightarrow> py_error + (merchants_frame \<times> rng)" where
  "generate_merchants cfg g =
     res_bind (rng_replicate (nat (n_merchants cfg)) (random_choice mccs) g) (\<lambda>(codes, g').
       Inr (\<lparr>merchants_frame.merchant_id = make_ids ''M'' (n_merchants cfg) 5,
             mcc = codes,
             country = replicate (nat (n_merchants cfg)) ''GB''\<rparr>, g'))"

definition random_ts :: "rng \<Rightarrow> py_error + (int \<times> rng)" where
  \<comment> \<open>\<open>start + timedelta(seconds=random.randint(0, 60 * 60 * 24 * 30))\<close>, the start
      being 2025-01-01 UTC.\<close>
  "random_ts g =
     res_bind (random_randint 0 (60 * 60 * 24 * 30) g) (\<lambda>(s, g').
     res_bind (timedelta_seconds s) (\<lambda>d.
     res_bind (datetime_add 1735689600000000 d) (\<lambda>t. Inr (t, g'))))"

definition random_amount :: "rng \<Rightarrow> py_error + (rat \<times> rng)" where
  \<comment> \<open>\<open>round(random.uniform(1.5, 400.0), 2)\<close>\<close>
  "random_amount g = (case random_uniform (3 / 2) 400 g of (x, g') \<Rightarrow> Inr (py_round2 x, g'))"

definition generate_transactions ::
  "SimConfig \<Rightarrow> people_frame \<Rightarrow> merchants_frame \<Rightarrow> rng \<Rightarrow> py_error + (tx_frame \<times> rng)" where
  "generate_transactions cfg people_t merchants_t g =
     (let person_ids = people_frame.person_id people_t;
          merchant_ids = merchants_frame.merchant_id merchants_t;
          n = nat (n_transactions cfg)
      in
      res_bind (rng_replicate n random_ts g) (\<lambda>(tss, g1).
      res_bind (rng_replicate n random_amount g1) (\<lambda>(amounts, g2).
      res_bind (rng_replicate n (random_choice person_ids) g2) (\<lambda>(persons, g3).
      res_bind (rng_replicate n (random_choice merchant_ids) g3) (\<lambda>(ms, g4).
        Inr (\<lparr>tx_id = make_ids ''T'' (n_transactions cfg) 8,
              ts = tss,
              amount = amounts,
              currency = replicate n ''GBP'',
              person_id = persons,
              merchant_id = ms,
              device_id = None, ip = None, card_hash = None, address_hash = None,
              is_fraud = None\<rparr>, g4))))))"

definition write_bronze :: "bronze \<Rightarrow> people_frame \<Rightarrow> merchants_frame \<Rightarrow> tx_frame \<Rightarrow> bronze" where
  "write_bronze store people_t merchants_t tx =
     store\<lparr>people := Some people_t, merchants := Some merchants_t, transactions := Some tx\<rparr>"

definition generate_main :: "(int \<Rightarrow> rng) \<Rightarrow> SimConfig \<Rightarrow> rng \<Rightarrow> bronze \<Rightarrow> py_error + bronze" where
  "generate_main mt cfg g0 store =
     (let g = random_seed mt (SimConfig.seed cfg) g0;
          people_t = generate_people cfg
      in
      res_bind (generate_merchants cfg g) (\<lambda>(merchants_t, g1).
      res_bind (generate_transactions cfg people_t merchants_t g1) (\<lambda>(tx, g2).
        Inr (write_bronze store people_t merchants_t tx))))"

section \<open>Reuse Sampler: enrich_infrastructure.py\<close>

record InfraConfig =
  seed :: int
  n_devices :: int
  n_ips :: int
  n_cards :: int
  n_addresses :: int
  reuse_strength :: rat

definition InfraConfig_default :: InfraConfig where
  "InfraConfig_default =
     \<lparr>seed = 42, n_devices = 2500, n_ips = 1800, n_cards = 2200, n_addresses = 1600,
      reuse_strength = 25 / 100\<rparr>"

definition dotted :: "string list \<Rightarrow> string" where
  "dotted parts = (case parts of [] \<Rightarrow> [] | p # ps \<Rightarrow> p @ concat (map (\<lambda>q. ''.'' @ q) ps))"

definition random_ipv4 :: "rng \<Rightarrow> py_error + (string \<times> rng)" where
  \<comment> \<open>\<open>_random_ipv4\<close>: one of the three private ranges.\<close>
  "random_ipv4 g =
     res_bind (random_choice [10, 172, 192 :: int] g) (\<lambda>(a, g1).
       if a = 10 then
         res_bind (random_randint 0 255 g1) (\<lambda>(b, g2).
         res_bind (random_randint 0 255 g2) (\<lambda>(c, g3).
         res_bind (random_randint 1 254 g3) (\<lambda>(d, g4).
           Inr (dotted [''10'', decimal (nat b), decimal (nat c), decimal (nat d)], g4))))
       else if a = 172 then
         res_bind (random_randint 16 31 g1) (\<lambda>(b, g2).
         res_bind (random_randint 0 255 g2) (\<lambda>(c, g3).
         res_bind (random_randint 1 254 g3) (\<lambda>(d, g4).
           Inr (dotted [''172'', decimal (nat b), decimal (nat c), decimal (nat d)], g4))))
       else
         res_bind (random_randint 0 255 g1) (\<lambda>(c, g2).
         res_bind (random_randint 1 254 g2) (\<lambda>(d, g3).
           Inr (dotted [''192'', ''168'', decimal (nat c), decimal (nat d)], g3))))"

fun reuse_loop ::
  "nat \<Rightarrow> string list \<Rightarrow> string list \<Rightarrow> rat \<Rightarrow> string list \<Rightarrow> rng
     \<Rightarrow> py_error + (string list \<times> rng)" where
  \<comment> \<open>\<open>for _ in range(n)\<close>, with the iterations left, \<open>pool\<close>, \<open>hot\<close> and \<open>out\<close>.\<close>
  "reuse_loop 0 pool hot strength out g = Inr (out, g)"
| "reuse_loop (Suc k) pool hot strength out g =
     (case random_random g of
        (u, g1) \<Rightarrow>
          if u < strength then
            res_bind (random_choice hot g1) (\<lambda>(x, g2).
              reuse_loop k pool hot strength (out @ [x]) g2)
          else
            res_bind (random_choice pool g1) (\<lambda>(x, g2).
              reuse_loop k pool hot strength (out @ [x]) g2))"

definition sample_with_reuse ::
  "string list \<Rightarrow> nat \<Rightarrow> rat \<Rightarrow> rng \<Rightarrow> py_error + (string list \<times> rng)" where
  \<comment> \<open>\<open>_sample_with_reuse(pool, n, reuse_strength)\<close>\<close>
  "sample_with_reuse pool n strength g =
     (if pool = [] then Inl ValueError
      else
        let hot_k = max 10 (py_int (of_nat (length pool) * max (2 / 100) (min (2 / 10) strength)));
            hot = py_slice pool 0 hot_k
        in reuse_loop n pool hot strength [] g)"

definition enrich_main :: "(int \<Rightarrow> rng) \<Rightarrow> InfraConfig \<Rightarrow> rng \<Rightarrow> bronze \<Rightarrow> py_error + bronze" where
  "enrich_main mt cfg g0 store =
     (let g = random_seed mt (InfraConfig.seed cfg) g0 in
      res_bind (read_parquet (transactions store)) (\<lambda>tx.
      let device_ids = make_ids ''D'' (n_devices cfg) 7 in
      res_bind (rng_replicate (nat (n_ips cfg)) random_ipv4 g) (\<lambda>(ip_values, g1).
      let card_hashes = make_ids ''C'' (n_cards cfg) 8;
          address_hashes = make_ids ''A'' (n_addresses cfg) 7;
          n = height tx
      in
      res_bind (sample_with_reuse device_ids n (reuse_strength cfg) g1) (\<lambda>(ds, g2).
      res_bind (sample_with_reuse ip_values n (reuse_strength cfg) g2) (\<lambda>(ipl, g3).
      res_bind (sample_with_reuse card_hashes n (reuse_strength cfg) g3) (\<lambda>(cl, g4).
      res_bind (sample_with_reuse address_hashes n (reuse_strength cfg) g4) (\<lambda>(al, g5).
        Inr (store\<lparr>devices := Some \<lparr>devices_frame.device_id = device_ids,
                                   device_type = replicate (nat (n_devices cfg)) ''mobile''\<rparr>,
                   ips := Some \<lparr>ips_frame.ip = ip_values\<rparr>,
                   cards := Some \<lparr>cards_frame.card_hash = card_hashes\<rparr>,
                   addresses := Some \<lparr>addresses_frame.address_hash = address_hashes,
                                     postcode = replicate (nat (n_addresses cfg)) ''UK''\<rparr>,
                   transactions := Some (tx\<lparr>device_id := Some ds, ip := Some ipl,
                                            card_hash := Some cl,
                                            address_hash := Some al\<rparr>)\<rparr>))))))))"

section \<open>Ring Injector: inject_fraud_rings.py\<close>

record RingConfig =
  seed :: int
  n_rings :: int
  ring_size_min :: int
  ring_size_max :: int
  fraud_tx_share :: rat
  shared_device_prob :: rat
  shared_ip_prob :: rat
  shared_card_prob :: rat
  shared_address_prob :: rat
  burst_hours_window :: int

definition RingConfig_default :: RingConfig where
  "RingConfig_default =
     \<lparr>seed = 42, n_rings = 12, ring_size_min = 6, ring_size_max = 20,
      fraud_tx_share = 8 / 100,
      shared_device_prob = 70 / 100, shared_ip_prob = 55 / 100,
      shared_card_prob = 35 / 100, shared_address_prob = 45 / 100,
      burst_hours_window = 48\<rparr>"

definition choose_hot :: "'a list \<Rightarrow> int \<Rightarrow> 'a list" where
  \<comment> \<open>\<open>_choose_hot\<close>: \<open>k = max(1, min(k, len(pool))); return pool[:k]\<close>\<close>
  "choose_hot pool k = py_slice pool 0 (max 1 (min k (int (length pool))))"

fun build_rings ::
  "RingConfig \<Rightarrow> string list \<Rightarrow> nat \<Rightarrow> int \<Rightarrow> string list list \<Rightarrow> rng
     \<Rightarrow> py_error + (string list list \<times> rng)" where
  \<comment> \<open>The loop \<open>for ring_id in range(cfg.n_rings)\<close>; the first argument after the ids
      counts the iterations left, then come \<open>cursor\<close> and \<open>rings\<close>.\<close>
  "build_rings cfg person_ids 0 cursor rings g = Inr (rings, g)"
| "build_rings cfg person_ids (Suc k) cursor rings g =
     res_bind (random_randint (ring_size_min cfg) (ring_size_max cfg) g) (\<lambda>(size, g').
       if cursor + size > int (length person_ids) then Inr (rings, g')
       else build_rings cfg person_ids k (cursor + size)
              (rings @ [py_slice person_ids cursor (cursor + size)]) g')"

definition make_rings ::
  "RingConfig \<Rightarrow> string list \<Rightarrow> rng \<Rightarrow> py_error + (string list list \<times> rng)" where
  \<comment> \<open>Lines 68-80 of \<open>main\<close>: shuffle, partition, and fail when no ring was built.\<close>
  "make_rings cfg person_ids g =
     (case random_shuffle person_ids g of
        (shuffled, g1) \<Rightarrow>
          res_bind (build_rings cfg shuffled (nat (n_rings cfg)) 0 [] g1) (\<lambda>(rings, g2).
            if rings = [] then Inl RuntimeError else Inr (rings, g2)))"

record shared_infra =
  sh_device :: string
  sh_ip :: string
  sh_card :: string
  sh_addr :: string

fun ring_shared_loop ::
  "nat \<Rightarrow> string list \<Rightarrow> string list \<Rightarrow> string list \<Rightarrow> string list \<Rightarrow> rng
     \<Rightarrow> py_error + (shared_infra list \<times> rng)" where
  \<comment> \<open>\<open>for _ in rings: ring_shared.append({...})\<close>, one iteration per ring.\<close>
  "ring_shared_loop 0 hot_devices hot_ips hot_cards hot_addrs g = Inr ([], g)"
| "ring_shared_loop (Suc k) hot_devices hot_ips hot_cards hot_addrs g =
     res_bind (random_choice hot_devices g) (\<lambda>(d, g1).
     res_bind (random_choice hot_ips g1) (\<lambda>(i, g2).
     res_bind (random_choice hot_cards g2) (\<lambda>(c, g3).
     res_bind (random_choice hot_addrs g3) (\<lambda>(a, g4).
     res_bind (ring_shared_loop k hot_devices hot_ips hot_cards hot_addrs g4) (\<lambda>(rest, g5).
       Inr (\<lparr>sh_device = d, sh_ip = i, sh_card = c, sh_addr = a\<rparr> # rest, g5))))))"

text \<open>The six column lists that the coercion loop mutates in place.\<close>

record tx_lists =
  tx_person :: "string list"
  tx_ts :: "int list"
  tx_device :: "string list"
  tx_ip :: "string list"
  tx_card :: "string list"
  tx_addr :: "string list"

definition overwrite_with_prob ::
  "rat \<Rightarrow> 'a list \<Rightarrow> nat \<Rightarrow> 'a \<Rightarrow> rng \<Rightarrow> py_error + ('a list \<times> rng)" where
  \<comment> \<open>\<open>if random.random() < prob: xs[idx] = v\<close>\<close>
  "overwrite_with_prob prob xs idx v g =
     (case random_random g of
        (u, g') \<Rightarrow>
          if u < prob then res_bind (py_set xs idx v) (\<lambda>ys. Inr (ys, g'))
          else Inr (xs, g'))"

definition coerce_one ::
  "RingConfig \<Rightarrow> string list list \<Rightarrow> shared_infra list \<Rightarrow> int list \<Rightarrow> nat
     \<Rightarrow> tx_lists \<Rightarrow> rng \<Rightarrow> py_error + (tx_lists \<times> rng)" where
  \<comment> \<open>The body of \<open>for idx in fraud_idx\<close> (lines 121-142).\<close>
  "coerce_one cfg rings ring_shared anchor_times idx st g =
     res_bind (random_randrange (length rings) g) (\<lambda>(r_i, g1).
     res_bind (py_get rings r_i) (\<lambda>ring_members.
     res_bind (py_get ring_shared r_i) (\<lambda>shared.
     res_bind (py_get anchor_times r_i) (\<lambda>anchor.
     res_bind (random_choice ring_members g1) (\<lambda>(member, g2).
     res_bind (py_set (tx_person st) idx member) (\<lambda>persons.
     res_bind (random_randint (- burst_hours_window cfg) (burst_hours_window cfg) g2) (\<lambda>(h, g3).
     res_bind (timedelta_hours h) (\<lambda>jitter.
     res_bind (datetime_add anchor jitter) (\<lambda>t.
     res_bind (py_set (tx_ts st) idx t) (\<lambda>tss.
     res_bind (overwrite_with_prob (shared_device_prob cfg) (tx_device st) idx (sh_device shared) g3) (\<lambda>(dl, g4).
     res_bind (overwrite_with_prob (shared_ip_prob cfg) (tx_ip st) idx (sh_ip shared) g4) (\<lambda>(ipl, g5).
     res_bind (overwrite_with_prob (shared_card_prob cfg) (tx_card st) idx (sh_card shared) g5) (\<lambda>(cl, g6).
     res_bind (overwrite_with_prob (shared_address_prob cfg) (tx_addr st) idx (sh_addr shared) g6) (\<lambda>(al, g7).
       Inr (\<lparr>tx_person = persons, tx_ts = tss, tx_device = dl, tx_ip = ipl,
             tx_card = cl, tx_addr = al\<rparr>, g7)))))))))))))))"

fun coerce_loop ::
  "RingConfig \<Rightarrow> string list list \<Rightarrow> shared_infra list \<Rightarrow> int list \<Rightarrow> nat list
     \<Rightarrow> tx_lists \<Rightarrow> rng \<Rightarrow> py_error + (tx_lists \<times> rng)" where
  "coerce_loop cfg rings ring_shared anchor_times [] st g = Inr (st, g)"
| "coerce_loop cfg rings ring_shared anchor_times (idx # rest) st g =
     res_bind (coerce_one cfg rings ring_shared anchor_times idx st g) (\<lambda>(st', g').
       coerce_loop cfg rings ring_shared anchor_times rest st' g')"

fun label_loop :: "nat list \<Rightarrow> int list \<Rightarrow> py_error + int list" where
  \<comment> \<open>\<open>for idx in fraud_idx: is_fraud[idx] = 1\<close>\<close>
  "label_loop [] labels = Inr labels"
| "label_loop (idx # rest) labels =
     res_bind (py_set labels idx 1) (\<lambda>xs. label_loop rest xs)"

definition inject ::
  "RingConfig \<Rightarrow> string list \<Rightarrow> tx_frame \<Rightarrow> string list \<Rightarrow> string list \<Rightarrow> string list
     \<Rightarrow> string list \<Rightarrow> rng \<Rightarrow> py_error + tx_frame" where
  \<comment> \<open>\<open>main\<close> from line 68 on: the tables are read, the generator is seeded.\<close>
  "inject cfg person_ids tx devs ip_pool card_pool addrs g =
     res_bind (make_rings cfg person_ids g) (\<lambda>(rings, g1).
     let n_total = height tx;
         n_fraud = py_int (of_nat n_total * fraud_tx_share cfg)
     in if n_fraud \<le> 0 then Inl ValueError
     else
     res_bind (random_sample [0..<n_total] (min n_fraud (int n_total)) g1) (\<lambda>(fraud_idx, g2).
     res_bind (column (device_id tx)) (\<lambda>tx_device0.
     res_bind (column (ip tx)) (\<lambda>tx_ip0.
     res_bind (column (card_hash tx)) (\<lambda>tx_card0.
     res_bind (column (address_hash tx)) (\<lambda>tx_addr0.
     let hot_devices = choose_hot devs (max 30 (py_int (of_nat (length devs) * (3 / 100))));
         hot_ips = choose_hot ip_pool (max 40 (py_int (of_nat (length ip_pool) * (4 / 100))));
         hot_cards = choose_hot card_pool (max 30 (py_int (of_nat (length card_pool) * (3 / 100))));
         hot_addrs = choose_hot addrs (max 25 (py_int (of_nat (length addrs) * (3 / 100))))
     in
     res_bind (ring_shared_loop (length rings) hot_devices hot_ips hot_cards hot_addrs g2)
       (\<lambda>(ring_shared, g3).
     res_bind (random_sample (ts tx) (int (length rings)) g3) (\<lambda>(anchor_times, g4).
     res_bind (coerce_loop cfg rings ring_shared anchor_times fraud_idx
                 \<lparr>tx_person = person_id tx, tx_ts = ts tx, tx_device = tx_device0,
                  tx_ip = tx_ip0, tx_card = tx_card0, tx_addr = tx_addr0\<rparr> g4) (\<lambda>(st, g5).
     res_bind (label_loop fraud_idx (replicate n_total 0)) (\<lambda>labels.
       Inr (tx\<lparr>person_id := tx_person st, ts := tx_ts st,
               device_id := Some (tx_device st), ip := Some (tx_ip st),
               card_hash := Some (tx_card st), address_hash := Some (tx_addr st),
               is_fraud := Some labels\<rparr>)))))))))))"

definition inject_main :: "(int \<Rightarrow> rng) \<Rightarrow> RingConfig \<Rightarrow> rng \<Rightarrow> bronze \<Rightarrow> py_error + bronze" where
  \<comment> \<open>\<open>main\<close>: seed, read the six tables, inject, write \<open>transactions.parquet\<close>.
      The third argument is the state of the global generator when the process starts.\<close>
  "inject_main mt cfg g0 store =
     (let g = random_seed mt (RingConfig.seed cfg) g0 in
      res_bind (read_parquet (people store)) (\<lambda>people_t.
      res_bind (read_parquet (transactions store)) (\<lambda>tx.
      res_bind (read_parquet (devices store)) (\<lambda>devices_t.
      res_bind (read_parquet (ips store)) (\<lambda>ips_t.
      res_bind (read_parquet (cards store)) (\<lambda>cards_t.
      res_bind (read_parquet (addresses store)) (\<lambda>addrs_t.
      res_bind (inject cfg (people_frame.person_id people_t) tx
                  (devices_frame.device_id devices_t) (ips_frame.ip ips_t)
                  (cards_frame.card_hash cards_t) (addresses_frame.address_hash addrs_t) g)
        (\<lambda>tx_out. Inr (store\<lparr>transactions := Some tx_out\<rparr>)))))))))"

section \<open>Graph Loader: load_bronze.py\<close>

text \<open>
  The property graph: a node has a label, the value of its key property (\<open>person_id\<close>
  for a Person, \<open>tx_id\<close> for a Transaction, and so on) and its other properties; the
  identity of a node is its position in the list of nodes (nodes are never deleted).
  A relationship is a triple of start node, type and end node. The Cypher clauses of
  the loader's queries are modelled by their semantics: \<open>MERGE\<close> of a node pattern
  binds every node that matches and creates one when none does, \<open>MATCH\<close> binds every
  node that matches and yields no row when none does (the clauses after it are then
  not run for that row, and nothing is raised), \<open>MERGE\<close> of a relationship creates it
  unless it exists, \<open>SET\<close> overwrites properties. A query runs row by row over
  \<open>UNWIND $rows\<close>.
\<close>

datatype label = Person | Merchant | Device | IP | Card | Address | Transaction

datatype rel_type = MADE | TO_MERCHANT | USED_DEVICE | FROM_IP | PAID_WITH | BILLED_TO

datatype pval = PStr string | PInt int | PFloat rat | PTime int

record node =
  n_label :: label
  n_key :: string
  n_props :: "(string \<times> pval) list"

type_synonym rel = "nat \<times> rel_type \<times> nat"

record graph =
  nodes :: "node list"
  rels :: "rel list"

definition empty_graph :: graph where
  "empty_graph = \<lparr>nodes = [], rels = []\<rparr>"

definition node_ids :: "label \<Rightarrow> string \<Rightarrow> graph \<Rightarrow> nat list" where
  \<comment> \<open>\<open>MATCH (x:Label {key: k})\<close>: the nodes that match.\<close>
  "node_ids l k g =
     filter (\<lambda>i. n_label (nodes g ! i) = l \<and> n_key (nodes g ! i) = k) [0..<length (nodes g)]"

definition merge_node :: "label \<Rightarrow> string \<Rightarrow> graph \<Rightarrow> graph" where
  \<comment> \<open>\<open>MERGE (x:Label {key: k})\<close>: created when no node matches.\<close>
  "merge_node l k g =
     (if node_ids l k g = [] then g\<lparr>nodes := nodes g @ [\<lparr>n_label = l, n_key = k, n_props = []\<rparr>]\<rparr>
      else g)"

fun set_prop :: "string \<Rightarrow> pval \<Rightarrow> (string \<times> pval) list \<Rightarrow> (string \<times> pval) list" where
  "set_prop k v [] = [(k, v)]"
| "set_prop k v ((k', v') # ps) = (if k = k' then (k, v) # ps else (k', v') # set_prop k v ps)"

definition set_props :: "nat list \<Rightarrow> (string \<times> pval) list \<Rightarrow> graph \<Rightarrow> graph" where
  \<comment> \<open>\<open>SET x.k1 = v1, x.k2 = v2, ...\<close> for every node bound to \<open>x\<close>.\<close>
  "set_props ids kvs g =
     g\<lparr>nodes := fold (\<lambda>i ns. ns[i := (ns ! i)\<lparr>n_props := fold (\<lambda>(k, v). set_prop k v) kvs
                                                     (n_props (ns ! i))\<rparr>]) ids (nodes g)\<rparr>"

definition merge_rel :: "rel \<Rightarrow> graph \<Rightarrow> graph" where
  \<comment> \<open>\<open>MERGE (a)-[:TYPE]->(b)\<close> for bound \<open>a\<close> and \<open>b\<close>.\<close>
  "merge_rel r g = (if r \<in> set (rels g) then g else g\<lparr>rels := rels g @ [r]\<rparr>)"

type_synonym entity_row = "string \<times> (string \<times> pval) list"

definition entity_row_step :: "label \<Rightarrow> entity_row \<Rightarrow> graph \<Rightarrow> graph" where
  \<comment> \<open>One row of \<open>UNWIND $rows AS r MERGE (x:Label {key: r.key}) SET x.a = r.a, ...\<close>;
      a row is its key and the properties the query sets.\<close>
  "entity_row_step l r g =
     (let g1 = merge_node l (fst r) g in set_props (node_ids l (fst r) g1) (snd r) g1)"

definition run_entity_query :: "label \<Rightarrow> entity_row list \<Rightarrow> graph \<Rightarrow> graph" where
  \<comment> \<open>\<open>session.run(query, rows=batch)\<close>\<close>
  "run_entity_query l batch g = fold (entity_row_step l) batch g"

function chunked :: "'a list \<Rightarrow> nat \<Rightarrow> 'a list list" where
  \<comment> \<open>\<open>for i in range(0, len(seq), size): yield seq[i : i + size]\<close>, for \<open>size > 0\<close>.\<close>
  "chunked xs n =
     (if n = 0 \<or> xs = [] then [] else take n xs # chunked (drop n xs) n)"
  by pat_completeness auto
termination
  by (relation "measure (\<lambda>(xs, n). length xs)") auto

definition merge_nodes :: "label \<Rightarrow> entity_row list \<Rightarrow> nat \<Rightarrow> graph \<Rightarrow> py_error + graph" where
  \<comment> \<open>\<open>merge_nodes(query, rows, batch_size)\<close>; \<open>range\<close> raises for a step of 0.\<close>
  "merge_nodes l rows batch_size g =
     (if batch_size = 0 then Inl ValueError
      else Inr (fold (run_entity_query l) (chunked rows batch_size) g))"

record tx_row =
  r_tx_id :: string
  r_ts :: int
  r_amount :: rat
  r_currency :: string
  r_person_id :: string
  r_merchant_id :: string
  r_device_id :: string
  r_ip :: string
  r_card_hash :: string
  r_address_hash :: string
  r_is_fraud :: int

definition tx_matches ::
  "tx_row \<Rightarrow> nat list \<Rightarrow> graph \<Rightarrow> (nat \<times> nat \<times> nat \<times> nat \<times> nat \<times> nat \<times> nat) list" where
  \<comment> \<open>\<open>WITH r, t MATCH (p:Person {...}), (m:Merchant {...}), (d:Device {...}), (ip:IP {...}),
      (c:Card {...}), (a:Address {...})\<close>: one result row per combination of matching
      nodes, none when a pattern matches no node.\<close>
  "tx_matches r tids g =
     [(t, p, m, d, i, c, a).
        t \<leftarrow> tids,
        p \<leftarrow> node_ids Person (r_person_id r) g,
        m \<leftarrow> node_ids Merchant (r_merchant_id r) g,
        d \<leftarrow> node_ids Device (r_device_id r) g,
        i \<leftarrow> node_ids IP (r_ip r) g,
        c \<leftarrow> node_ids Card (r_card_hash r) g,
        a \<leftarrow> node_ids Address (r_address_hash r) g]"

definition merge_tx_rels :: "nat \<times> nat \<times> nat \<times> nat \<times> nat \<times> nat \<times> nat \<Rightarrow> graph \<Rightarrow> graph" where
  \<comment> \<open>The six relationship \<open>MERGE\<close>s, in the query's order.\<close>
  "merge_tx_rels b g =
     (case b of (t, p, m, d, i, c, a) \<Rightarrow>
        merge_rel (t, BILLED_TO, a)
          (merge_rel (t, PAID_WITH, c)
            (merge_rel (t, FROM_IP, i)
              (merge_rel (t, USED_DEVICE, d)
                (merge_rel (t, TO_MERCHANT, m)
                  (merge_rel (p, MADE, t) g))))))"

definition tx_row_step :: "tx_row \<Rightarrow> graph \<Rightarrow> graph" where
  \<comment> \<open>One row of \<open>tx_query\<close>.\<close>
  "tx_row_step r g =
     (let g1 = merge_node Transaction (r_tx_id r) g;
          tids = node_ids Transaction (r_tx_id r) g1;
          g2 = set_props tids
                 [(''ts'', PTime (r_ts r)), (''amount'', PFloat (r_amount r)),
                  (''currency'', PStr (r_currency r)), (''is_fraud'', PInt (r_is_fraud r))] g1
      in fold merge_tx_rels (tx_matches r tids g2) g2)"

definition run_tx_query :: "tx_row list \<Rightarrow> graph \<Rightarrow> graph" where
  \<comment> \<open>\<open>session.run(tx_query, rows=batch)\<close>\<close>
  "run_tx_query batch g = fold tx_row_step batch g"

text \<open>The entity and transaction rows: \<open>frame.select([...]).to_dicts()\<close>.\<close>

record load_rows =
  people_rows :: "entity_row list"
  merchant_rows :: "entity_row list"
  device_rows :: "entity_row list"
  ip_rows :: "entity_row list"
  card_rows :: "entity_row list"
  addr_rows :: "entity_row list"
  tx_rows :: "tx_row list"

definition load :: "load_rows \<Rightarrow> graph \<Rightarrow> py_error + graph" where
  \<comment> \<open>The body of \<open>with driver.session(...)\<close>: Phase 1 (six node tables, batches of
      5000), then Phase 2 (transactions and relationships, batches of 1500).\<close>
  "load t g =
     res_bind (merge_nodes Person (people_rows t) 5000 g) (\<lambda>g1.
     res_bind (merge_nodes Merchant (merchant_rows t) 5000 g1) (\<lambda>g2.
     res_bind (merge_nodes Device (device_rows t) 5000 g2) (\<lambda>g3.
     res_bind (merge_nodes IP (ip_rows t) 5000 g3) (\<lambda>g4.
     res_bind (merge_nodes Card (card_rows t) 5000 g4) (\<lambda>g5.
     res_bind (merge_nodes Address (addr_rows t) 5000 g5) (\<lambda>g6.
       Inr (fold run_tx_query (chunked (tx_rows t) 1500) g6)))))))"

definition key_rows :: "string list \<Rightarrow> entity_row list" where
  "key_rows ks = map (\<lambda>k. (k, [])) ks"

definition attr_rows :: "string list \<Rightarrow> (string \<times> string list) list \<Rightarrow> entity_row list" where
  \<comment> \<open>The rows of a frame with a key column and string columns \<open>(name, column)\<close>.\<close>
  "attr_rows ks cols =
     map (\<lambda>i. (ks ! i, map (\<lambda>(name, col). (name, PStr (col ! i))) cols)) [0..<length ks]"

definition tx_to_dicts :: "tx_frame \<Rightarrow> py_error + tx_row list" where
  \<comment> \<open>\<open>tx.select([...eleven columns...]).to_dicts()\<close>\<close>
  "tx_to_dicts tx =
     res_bind (column (device_id tx)) (\<lambda>ds.
     res_bind (column (ip tx)) (\<lambda>ipl.
     res_bind (column (card_hash tx)) (\<lambda>cl.
     res_bind (column (address_hash tx)) (\<lambda>al.
     res_bind (column (is_fraud tx)) (\<lambda>fl.
       Inr (map (\<lambda>i. \<lparr>r_tx_id = tx_id tx ! i, r_ts = ts tx ! i, r_amount = amount tx ! i,
                       r_currency = currency tx ! i, r_person_id = person_id tx ! i,
                       r_merchant_id = merchant_id tx ! i, r_device_id = ds ! i,
                       r_ip = ipl ! i, r_card_hash = cl ! i, r_address_hash = al ! i,
                       r_is_fraud = fl ! i\<rparr>) [0..<height tx]))))))"

definition load_main :: "bronze \<Rightarrow> graph \<Rightarrow> py_error + graph" where
  \<comment> \<open>\<open>main\<close>: read the seven tables, select the columns, load. The store is taken to
      be reachable (\<open>verify_connectivity\<close> succeeds).\<close>
  "load_main store g =
     res_bind (read_parquet (people store)) (\<lambda>people_t.
     res_bind (read_parquet (merchants store)) (\<lambda>merchants_t.
     res_bind (read_parquet (devices store)) (\<lambda>devices_t.
     res_bind (read_parquet (ips store)) (\<lambda>ips_t.
     res_bind (read_parquet (cards store)) (\<lambda>cards_t.
     res_bind (read_parquet (addresses store)) (\<lambda>addrs_t.
     res_bind (read_parquet (transactions store)) (\<lambda>tx.
     res_bind (tx_to_dicts tx) (\<lambda>rows.
       load \<lparr>people_rows = key_rows (people_frame.person_id people_t),
             merchant_rows = attr_rows (merchants_frame.merchant_id merchants_t)
                [(''mcc'', mcc merchants_t), (''country'', country merchants_t)],
             device_rows = attr_rows (devices_frame.device_id devices_t)
                [(''device_type'', device_type devices_t)],
             ip_rows = key_rows (ips_frame.ip ips_t),
             card_rows = key_rows (cards_frame.card_hash cards_t),
             addr_rows = attr_rows (addresses_frame.address_hash addrs_t)
                [(''postcode'', postcode addrs_t)],
             tx_rows = rows\<rparr> g))))))))"

section \<open>Concrete inputs\<close>

text \<open>Small configurations and tables on which the theorems below are evaluated.\<close>

definition cfg_small :: RingConfig where
  "cfg_small = RingConfig_default\<lparr>n_rings := 3, ring_size_min := 1, ring_size_max := 2,
                                  fraud_tx_share := 1 / 2, burst_hours_window := 2\<rparr>"

definition four_people :: "string list" where
  "four_people = [''P000000'', ''P000001'', ''P000002'', ''P000003'']"


definition tx3 :: tx_frame where
  "tx3 =
     \<lparr>tx_id = [''T00000000'', ''T00000001'', ''T00000002''],
      ts = [1735689600000000, 1735700000000000, 1735800000000000],
      amount = [3 / 2, 10, 25],
      currency = [''GBP'', ''GBP'', ''GBP''],
      person_id = [''P000001'', ''P000001'', ''P000003''],
      merchant_id = [''M00000'', ''M00001'', ''M00000''],
      device_id = Some [''D0000000'', ''D0000001'', ''D0000000''],
      ip = Some [''10.0.0.1'', ''10.0.0.2'', ''10.0.0.2''],
      card_hash = Some [''C00000000'', ''C00000001'', ''C00000001''],
      address_hash = Some [''A0000000'', ''A0000000'', ''A0000001''],
      is_fraud = None\<rparr>"

definition pool_devices :: "string list" where "pool_devices = [''D0000000'', ''D0000001'']"

definition pool_ips :: "string list" where "pool_ips = [''10.0.0.1'', ''10.0.0.2'']"

definition pool_cards :: "string list" where "pool_cards = [''C00000000'', ''C00000001'']"

definition pool_addrs :: "string list" where "pool_addrs = [''A0000000'', ''A0000001'']"

definition draws3 :: rng where
  "draws3 = [1, 0, 1, 1, 0, 1, 1, 1, 0, 1, 0, 0, 1, 0, 1, 2, 0, 1, 0, 3,
             4503599627370496, 4503599627370496, 4503599627370496, 4503599627370496]"

definition tx3_out :: tx_frame where
  "tx3_out =
     \<lparr>tx_id = [''T00000000'', ''T00000001'', ''T00000002''],
      ts = [1735689600000000, 1735693200000000, 1735800000000000],
      amount = [3 / 2, 10, 25],
      currency = [''GBP'', ''GBP'', ''GBP''],
      person_id = [''P000001'', ''P000000'', ''P000003''],
      merchant_id = [''M00000'', ''M00001'', ''M00000''],
      device_id = Some [''D0000000'', ''D0000000'', ''D0000000''],
      ip = Some [''10.0.0.1'', ''10.0.0.2'', ''10.0.0.2''],
      card_hash = Some [''C00000000'', ''C00000001'', ''C00000001''],
      address_hash = Some [''A0000000'', ''A0000000'', ''A0000001''],
      is_fraud = Some [0, 1, 0]\<rparr>"






definition spec_draw ::
  "string list \<Rightarrow> string list \<Rightarrow> rat \<Rightarrow> rng \<Rightarrow> py_error + (string \<times> rng)" where
  \<comment> \<open>With probability \<open>reuse_strength\<close> (a uniform draw from \<open>[0, 1)\<close> falls below it)
      a uniform draw from the hot sub-pool, otherwise a uniform draw from the pool.\<close>
  "spec_draw pool hot strength g =
     (case random_random g of
        (u, g') \<Rightarrow> if u < strength then random_choice hot g' else random_choice pool g')"


definition pipeline ::
  "(int \<Rightarrow> rng) \<Rightarrow> SimConfig \<Rightarrow> InfraConfig \<Rightarrow> RingConfig \<Rightarrow> rng \<Rightarrow> rng \<Rightarrow> rng \<Rightarrow> bronze
     \<Rightarrow> py_error + bronze" where
  \<comment> \<open>Modelled from the spec: the order in which the three generation stages run
      (section 2: Entity Generator, then Reuse Sampler, then Ring Injector), each as a
      process of its own with the state \<open>ga\<close>, \<open>gb\<close>, \<open>gc\<close> of its global generator at
      start; the repository has no driver for the stages under src/.\<close>
  "pipeline mt sim infra ring ga gb gc store =
     res_bind (generate_main mt sim ga store) (\<lambda>s1.
     res_bind (enrich_main mt infra gb s1) (\<lambda>s2.
       inject_main mt ring gc s2))"

definition mt_demo :: "int \<Rightarrow> rng" where
  "mt_demo s = [nat (s mod 5), 1, 0, 2, 1, 3, 0, 1, 2, 0, 1, 1]"

definition sim_small :: SimConfig where
  "sim_small = SimConfig_default\<lparr>n_people := 3, n_merchants := 2, n_transactions := 3\<rparr>"

definition infra_small :: InfraConfig where
  "infra_small = InfraConfig_default\<lparr>n_devices := 2, n_ips := 2, n_cards := 2,
                                      n_addresses := 2\<rparr>"

definition empty_bronze :: bronze where
  "empty_bronze = \<lparr>people = None, merchants = None, devices = None, ips = None, cards = None,
                    addresses = None, transactions = None\<rparr>"

definition tx_final :: tx_frame where
  "tx_final =
     \<lparr>tx_id = [''T00000000'', ''T00000001'', ''T00000002''],
      ts = [1735682400000000, 1735689602000000, 1735689601000000],
      amount = [3 / 2, 3 / 2, 3 / 2],
      currency = [''GBP'', ''GBP'', ''GBP''],
      person_id = [''P000000'', ''P000000'', ''P000001''],
      merchant_id = [''M00001'', ''M00000'', ''M00000''],
      device_id = Some [''D0000000'', ''D0000000'', ''D0000001''],
      ip = Some [''192.168.1.4'', ''192.168.1.1'', ''192.168.1.1''],
      card_hash = Some [''C00000000'', ''C00000000'', ''C00000000''],
      address_hash = Some [''A0000000'', ''A0000000'', ''A0000000''],
      is_fraud = Some [1, 0, 0]\<rparr>"

definition bronze_final :: bronze where
  "bronze_final =
     \<lparr>people = Some \<lparr>people_frame.person_id = [''P000000'', ''P000001'', ''P000002''],
                     created_at = [1704067200000000, 1704067200000000, 1704067200000000]\<rparr>,
      merchants = Some \<lparr>merchants_frame.merchant_id = [''M00000'', ''M00001''],
                        mcc = [''5999'', ''5812''], country = [''GB'', ''GB'']\<rparr>,
      devices = Some \<lparr>devices_frame.device_id = [''D0000000'', ''D0000001''],
                      device_type = [''mobile'', ''mobile'']\<rparr>,
      ips = Some \<lparr>ips_frame.ip = [''192.168.1.1'', ''192.168.1.4'']\<rparr>,
      cards = Some \<lparr>cards_frame.card_hash = [''C00000000'', ''C00000001'']\<rparr>,
      addresses = Some \<lparr>addresses_frame.address_hash = [''A0000000'', ''A0000001''],
                        postcode = [''UK'', ''UK'']\<rparr>,
      transactions = Some tx_final\<rparr>"

(*DEFS-END*)

section \<open>Verification: results, generator and lists\<close>

lemma res_bind_Inl [simp]: "res_bind (Inl e) f = Inl e"
  by (simp add: res_bind_def)

lemma res_bind_Inr [simp]: "res_bind (Inr x) f = f x"
  by (simp add: res_bind_def)

lemma res_bind_eq_Inr: "res_bind m f = Inr y \<longleftrightarrow> (\<exists>x. m = Inr x \<and> f x = Inr y)"
  by (cases m) simp_all

lemma randbelow_less: "0 < n \<Longrightarrow> fst (randbelow n g) < n"
  by (cases g) (simp_all add: randbelow_def)

lemma random_randint_range:
  assumes "random_randint a b g = Inr (r, g')"
  shows "a \<le> r \<and> r \<le> b"
proof -
  have ab: "a \<le> b" using assms by (auto simp: random_randint_def split: if_splits)
  obtain x g1 where rb: "randbelow (nat (b - a + 1)) g = (x, g1)"
    by (cases "randbelow (nat (b - a + 1)) g")
  have "x < nat (b - a + 1)"
    using randbelow_less [of "nat (b - a + 1)" g] ab rb by simp
  with assms ab rb show ?thesis by (auto simp: random_randint_def)
qed

lemma shuffle_loop_mset:
  "i < length xs \<Longrightarrow> mset (fst (shuffle_loop i xs g)) = mset xs"
proof (induction i arbitrary: xs g)
  case 0
  then show ?case by simp
next
  case (Suc i)
  obtain j g' where r: "randbelow (Suc (Suc i)) g = (j, g')"
    by (cases "randbelow (Suc (Suc i)) g")
  have "j < Suc (Suc i)"
    using randbelow_less [of "Suc (Suc i)" g] r by simp
  with Suc.prems have j: "j < length xs" by simp
  let ?ys = "xs[Suc i := xs ! j, j := xs ! Suc i]"
  have "mset ?ys = mset xs"
    using mset_swap [of j xs "Suc i"] Suc.prems j by simp
  moreover have "mset (fst (shuffle_loop i ?ys g')) = mset ?ys"
    using Suc.prems by (intro Suc.IH) simp
  ultimately show ?case using r by simp
qed

lemma random_shuffle_mset: "mset (fst (random_shuffle xs g)) = mset xs"
proof (cases xs)
  case Nil
  then show ?thesis by (simp add: random_shuffle_def)
next
  case (Cons a list)
  then show ?thesis
    unfolding random_shuffle_def by (intro shuffle_loop_mset) simp
qed

lemma py_slice_nonneg:
  "0 \<le> i \<Longrightarrow> i \<le> j \<Longrightarrow> j \<le> int (length xs)
     \<Longrightarrow> py_slice xs i j = take (nat (j - i)) (drop (nat i) xs)"
  by (simp add: py_slice_def Let_def min_def)

lemma distinct_concat_nth_disjoint:
  "distinct (concat xss) \<Longrightarrow> i < j \<Longrightarrow> j < length xss
     \<Longrightarrow> set (xss ! i) \<inter> set (xss ! j) = {}"
proof (induction xss arbitrary: i j)
  case Nil
  then show ?case by simp
next
  case (Cons a rest)
  show ?case
  proof (cases i)
    case 0
    with Cons.prems obtain j' where j': "j = Suc j'" "j' < length rest"
      by (cases j) auto
    have "rest ! j' \<in> set rest" using j'(2) by simp
    then have "set (rest ! j') \<subseteq> set (concat rest)" by auto
    with Cons.prems(1) 0 j' show ?thesis by auto
  next
    case (Suc i')
    with Cons.prems obtain j' where j': "j = Suc j'" "i' < j'" "j' < length rest"
      by (cases j) auto
    with Cons.IH [of i' j'] Cons.prems(1) Suc show ?thesis by simp
  qed
qed

section \<open>Verification: ring construction\<close>

lemma build_rings_inv:
  "build_rings cfg ids k cursor rings g = Inr (rings', g') \<Longrightarrow>
   0 \<le> ring_size_min cfg \<Longrightarrow> 0 \<le> cursor \<Longrightarrow> cursor \<le> int (length ids) \<Longrightarrow>
   \<exists>new. rings' = rings @ new \<and> length new \<le> k
     \<and> (\<forall>r \<in> set new. ring_size_min cfg \<le> int (length r) \<and> int (length r) \<le> ring_size_max cfg)
     \<and> cursor + int (length (concat new)) \<le> int (length ids)
     \<and> concat new = take (length (concat new)) (drop (nat cursor) ids)
     \<and> (length new < k \<longrightarrow>
          int (length ids) - cursor - int (length (concat new)) < ring_size_max cfg)"
proof (induction k arbitrary: cursor rings g)
  case 0
  then show ?case by simp
next
  case (Suc k)
  from Suc.prems(1) obtain sz g1 where
    draw: "random_randint (ring_size_min cfg) (ring_size_max cfg) g = Inr (sz, g1)" and
    rest: "(if cursor + sz > int (length ids) then Inr (rings, g1)
            else build_rings cfg ids k (cursor + sz)
                   (rings @ [py_slice ids cursor (cursor + sz)]) g1) = Inr (rings', g')"
    by (auto simp: res_bind_eq_Inr)
  from random_randint_range [OF draw]
  have lo: "ring_size_min cfg \<le> sz" and hi: "sz \<le> ring_size_max cfg" by simp_all
  show ?case
  proof (cases "cursor + sz > int (length ids)")
    case True
    with rest have "rings' = rings" by simp
    moreover have "int (length ids) - cursor < ring_size_max cfg"
      using True hi by linarith
    ultimately show ?thesis
      using Suc.prems(4) by (intro exI [of _ "[]"]) simp
  next
    case False
    let ?s = "py_slice ids cursor (cursor + sz)"
    have sz0: "0 \<le> sz" using lo Suc.prems(2) by linarith
    have s_eq: "?s = take (nat sz) (drop (nat cursor) ids)"
      using py_slice_nonneg [of cursor "cursor + sz" ids] Suc.prems(3) sz0 False by simp
    have s_len: "length ?s = nat sz"
      using False Suc.prems(3) sz0 unfolding s_eq by simp
    from rest False have
      "build_rings cfg ids k (cursor + sz) (rings @ [?s]) g1 = Inr (rings', g')" by simp
    from Suc.IH [OF this Suc.prems(2)] Suc.prems(3) sz0 False
    obtain new where
      n1: "rings' = (rings @ [?s]) @ new" and
      n2: "length new \<le> k" and
      n3: "\<forall>r \<in> set new. ring_size_min cfg \<le> int (length r) \<and> int (length r) \<le> ring_size_max cfg" and
      n4: "cursor + sz + int (length (concat new)) \<le> int (length ids)" and
      n5: "concat new = take (length (concat new)) (drop (nat (cursor + sz)) ids)" and
      n6: "length new < k \<longrightarrow>
             int (length ids) - (cursor + sz) - int (length (concat new)) < ring_size_max cfg"
      by auto
    have dr: "drop (nat (cursor + sz)) ids = drop (nat sz) (drop (nat cursor) ids)"
      using Suc.prems(3) sz0 by (simp add: nat_add_distrib add.commute)
    have cat: "concat (?s # new)
               = take (length (concat (?s # new))) (drop (nat cursor) ids)"
    proof -
      have "concat (?s # new)
            = take (nat sz) (drop (nat cursor) ids)
              @ take (length (concat new)) (drop (nat sz) (drop (nat cursor) ids))"
        using n5 dr s_eq by simp
      also have "\<dots> = take (nat sz + length (concat new)) (drop (nat cursor) ids)"
        by (simp add: take_add)
      finally have "concat (?s # new)
            = take (nat sz + length (concat new)) (drop (nat cursor) ids)" .
      moreover have "length (concat (?s # new)) = nat sz + length (concat new)"
        using s_len by simp
      ultimately show ?thesis by metis
    qed
    have "rings' = rings @ (?s # new)" using n1 by simp
    moreover have "length (?s # new) \<le> Suc k" using n2 by simp
    moreover have "\<forall>r \<in> set (?s # new).
        ring_size_min cfg \<le> int (length r) \<and> int (length r) \<le> ring_size_max cfg"
      using n3 lo hi s_len sz0 by simp
    moreover have "cursor + int (length (concat (?s # new))) \<le> int (length ids)"
      using n4 s_len sz0 by simp
    moreover have "length (?s # new) < Suc k \<longrightarrow>
        int (length ids) - cursor - int (length (concat (?s # new))) < ring_size_max cfg"
      using n6 s_len sz0 by (simp add: algebra_simps)
    ultimately show ?thesis using cat by blast
  qed
qed

lemma make_rings_shape:
  assumes run: "make_rings cfg person_ids g = Inr (rings, g')"
    and nonneg: "0 \<le> ring_size_min cfg"
  shows "rings \<noteq> [] \<and> length rings \<le> nat (n_rings cfg)
     \<and> (\<forall>r \<in> set rings. ring_size_min cfg \<le> int (length r) \<and> int (length r) \<le> ring_size_max cfg)
     \<and> length (concat rings) \<le> length person_ids
     \<and> concat rings = take (length (concat rings)) (fst (random_shuffle person_ids g))
     \<and> (length rings < nat (n_rings cfg) \<longrightarrow>
          int (length person_ids) - int (length (concat rings)) < ring_size_max cfg)"
proof -
  obtain shuffled g1 where sh: "random_shuffle person_ids g = (shuffled, g1)"
    by (cases "random_shuffle person_ids g")
  have len: "length shuffled = length person_ids"
    using random_shuffle_mset [of person_ids g] sh by (metis fst_conv size_mset)
  from run sh obtain g2 where
    b: "build_rings cfg shuffled (nat (n_rings cfg)) 0 [] g1 = Inr (rings, g2)" and
    ne: "rings \<noteq> []"
    by (auto simp: make_rings_def res_bind_eq_Inr split: if_splits)
  from build_rings_inv [OF b nonneg] ne sh len show ?thesis by auto
qed

text \<open>
  Claim C8 (ring disjointness). When ring construction succeeds, the rings are pairwise
  disjoint subsets of the Person id pool: no Person id appears in more than one ring
  (nor twice in one ring). The Person ids are unique in the People table and a ring
  size is not negative (\<open>0 \<le> ring_size_min\<close>).
\<close>

theorem rings_pairwise_disjoint:
  assumes run: "make_rings cfg person_ids g = Inr (rings, g')"
    and uniq: "distinct person_ids"
    and nonneg: "0 \<le> ring_size_min cfg"
  shows "distinct (concat rings)
     \<and> (\<forall>i < length rings. \<forall>j < length rings. i \<noteq> j \<longrightarrow> set (rings ! i) \<inter> set (rings ! j) = {})
     \<and> (\<forall>r \<in> set rings. set r \<subseteq> set person_ids)"
proof -
  let ?sh = "fst (random_shuffle person_ids g)"
  have m: "mset ?sh = mset person_ids" by (rule random_shuffle_mset)
  then have d: "distinct ?sh" using uniq by (metis mset_eq_imp_distinct_iff)
  have s: "set ?sh = set person_ids" using m by (metis set_mset_mset)
  from make_rings_shape [OF run nonneg]
  have pre: "concat rings = take (length (concat rings)) ?sh" by simp
  have dc: "distinct (concat rings)"
    using d pre by (metis distinct_take)
  have sub: "set (concat rings) \<subseteq> set person_ids"
    using pre s by (metis set_take_subset)
  have pw: "set (rings ! i) \<inter> set (rings ! j) = {}"
    if "i < length rings" "j < length rings" "i \<noteq> j" for i j
  proof (cases "i < j")
    case True
    then show ?thesis using distinct_concat_nth_disjoint [OF dc] that by simp
  next
    case False
    then have "j < i" using that by simp
    then show ?thesis using distinct_concat_nth_disjoint [OF dc, of j i] that by blast
  qed
  from dc pw sub show ?thesis by auto
qed

lemma make_rings_four_people:
  "make_rings cfg_small four_people [1, 0, 1, 1, 0, 1]
     = Inr ([[''P000002'', ''P000003''], [''P000000'']], [])"
  by code_simp

lemma shuffle_four_people:
  "random_shuffle four_people [1, 0, 1, 1, 0, 1]
     = ([''P000002'', ''P000003'', ''P000000'', ''P000001''], [1, 0, 1])"
  by code_simp



theorem rings_pairwise_disjoint_witness:
  "make_rings cfg_small four_people [1, 0, 1, 1, 0, 1]
     = Inr ([[''P000002'', ''P000003''], [''P000000'']], [])
   \<and> distinct four_people \<and> 0 \<le> ring_size_min cfg_small
   \<and> distinct (concat [[''P000002'', ''P000003''], [''P000000'']])
   \<and> set ([[''P000002'', ''P000003''], [''P000000'']] ! 0)
       \<inter> set ([[''P000002'', ''P000003''], [''P000000'']] ! 1) = {}
   \<and> set [''P000002'', ''P000003''] \<subseteq> set four_people"
proof -
  have d: "distinct four_people" by (simp add: four_people_def)
  have n: "0 \<le> ring_size_min cfg_small" by (simp add: cfg_small_def)
  from rings_pairwise_disjoint [OF make_rings_four_people d n]
  show ?thesis using make_rings_four_people d n by simp
qed




section \<open>Verification: Ring Injector\<close>

lemma mset_swap_out_last:
  assumes "j < length pool"
  shows "add_mset (pool ! j) (mset (butlast (pool[j := last pool]))) = mset pool"
proof -
  from assms have "pool \<noteq> []" by auto
  then obtain ys l where p: "pool = ys @ [l]" by (metis rev_exhaust)
  show ?thesis
  proof (cases "j = length ys")
    case True
    then show ?thesis using p by simp
  next
    case False
    with assms p have j: "j < length ys" by simp
    then have "butlast (pool[j := last pool]) = ys[j := l]"
      using p by (simp add: list_update_append)
    moreover have "pool ! j = ys ! j" using p j by (simp add: nth_append)
    moreover have "add_mset (ys ! j) (mset (ys[j := l])) = add_mset l (mset ys)"
      using j by (simp add: mset_update)
    ultimately show ?thesis using p by simp
  qed
qed

lemma sample_loop_props:
  "k \<le> length pool \<Longrightarrow>
     length (fst (sample_loop k pool g)) = k
     \<and> mset (fst (sample_loop k pool g)) \<subseteq># mset pool"
proof (induction k arbitrary: pool g)
  case 0
  then show ?case by simp
next
  case (Suc k)
  obtain j g' where r: "randbelow (length pool) g = (j, g')"
    by (cases "randbelow (length pool) g")
  have "0 < length pool" using Suc.prems by (cases pool) auto
  from randbelow_less [OF this, of g] r have j: "j < length pool" by simp
  let ?rest = "butlast (pool[j := last pool])"
  obtain res g'' where s: "sample_loop k ?rest g' = (res, g'')"
    by (cases "sample_loop k ?rest g'")
  have "k \<le> length ?rest" using Suc.prems by simp
  from Suc.IH [OF this, of g'] s
  have ih: "length res = k" "mset res \<subseteq># mset ?rest" by simp_all
  have "add_mset (pool ! j) (mset res) \<subseteq># add_mset (pool ! j) (mset ?rest)"
    using ih(2) by simp
  then have "add_mset (pool ! j) (mset res) \<subseteq># mset pool"
    using mset_swap_out_last [OF j] by simp
  then show ?case using r s ih(1) by simp
qed

lemma random_sample_props:
  assumes "random_sample population k g = Inr (xs, g')"
  shows "int (length xs) = k \<and> mset xs \<subseteq># mset population"
proof -
  from assms have k: "0 \<le> k" "k \<le> int (length population)"
    and e: "sample_loop (nat k) population g = (xs, g')"
    by (auto simp: random_sample_def split: if_splits)
  from k have "nat k \<le> length population" by simp
  from sample_loop_props [OF this, of g] e k show ?thesis by simp
qed

lemma distinct_mset_subseteq:
  assumes "mset xs \<subseteq># mset ys" "distinct ys"
  shows "distinct xs"
  unfolding distinct_count_atmost_1
proof (intro allI)
  fix a
  have le: "count (mset xs) a \<le> count (mset ys) a"
    using mset_subset_eq_count [OF assms(1)] .
  have ys: "count (mset ys) a = (if a \<in> set ys then 1 else 0)"
    using assms(2) by (simp add: distinct_count_atmost_1)
  show "count (mset xs) a = (if a \<in> set xs then 1 else 0)"
  proof (cases "a \<in> set xs")
    case True
    have c1: "1 \<le> count (mset xs) a"
      using True by (metis count_greater_eq_one_iff set_mset_mset)
    have c2: "count (mset ys) a \<le> 1" using ys by (simp split: if_splits)
    have "count (mset xs) a = 1" using c1 c2 le by linarith
    then show ?thesis using True by simp
  next
    case False
    then show ?thesis by (simp add: count_mset_0_iff)
  qed
qed

lemma random_sample_range:
  assumes "random_sample [0..<n] k g = Inr (xs, g')"
  shows "distinct xs \<and> set xs \<subseteq> {..<n} \<and> int (length xs) = k"
proof -
  from random_sample_props [OF assms]
  have l: "int (length xs) = k" and m: "mset xs \<subseteq># mset [0..<n]" by simp_all
  have "distinct xs"
    using m distinct_upt [of 0 n] by (rule distinct_mset_subseteq)
  moreover have "set xs \<subseteq> {..<n}"
    using set_mset_mono [OF m] by auto
  ultimately show ?thesis using l by simp
qed

lemma label_loop_props:
  "label_loop idxs labels = Inr out \<Longrightarrow>
     length out = length labels
     \<and> (\<forall>i < length labels. out ! i = (if i \<in> set idxs then 1 else labels ! i))"
proof (induction idxs arbitrary: labels)
  case Nil
  then show ?case by simp
next
  case (Cons idx rest)
  from Cons.prems have lt: "idx < length labels"
    and r: "label_loop rest (labels[idx := 1]) = Inr out"
    by (auto simp: py_set_def res_bind_eq_Inr split: if_splits)
  from Cons.IH [OF r] show ?case
    by (auto simp: nth_list_update)
qed

lemma label_loop_total:
  "set idxs \<subseteq> {..<length labels} \<Longrightarrow> \<exists>out. label_loop idxs labels = Inr out"
  by (induction idxs arbitrary: labels) (auto simp: py_set_def)


lemma py_get_Inr: "py_get xs i = Inr x \<longleftrightarrow> i < length xs \<and> x = xs ! i"
  by (auto simp: py_get_def)

lemma py_set_Inr: "py_set xs i v = Inr ys \<longleftrightarrow> i < length xs \<and> ys = xs[i := v]"
  by (auto simp: py_set_def)

lemma random_choice_mem: "random_choice xs g = Inr (x, g') \<Longrightarrow> x \<in> set xs"
proof -
  assume a: "random_choice xs g = Inr (x, g')"
  then have ne: "xs \<noteq> []" by (auto simp: random_choice_def split: if_splits)
  then have "fst (randbelow (length xs) g) < length xs" by (intro randbelow_less) simp
  with a ne show ?thesis
    by (auto simp: random_choice_def split: prod.splits)
qed

lemma random_randrange_less: "random_randrange n g = Inr (r, g') \<Longrightarrow> r < n"
  using randbelow_less [of n g] by (auto simp: random_randrange_def split: if_splits)

lemma overwrite_with_prob_props:
  "overwrite_with_prob prob xs idx v g = Inr (ys, g')
     \<Longrightarrow> ys = xs \<or> (idx < length xs \<and> ys = xs[idx := v])"
  by (auto simp: overwrite_with_prob_def res_bind_eq_Inr py_set_Inr
           split: prod.splits if_splits)

lemma timedelta_hours_Inr: "timedelta_hours h = Inr d \<Longrightarrow> d = h * 3600000000"
  by (auto simp: timedelta_hours_def split: if_splits)

lemma datetime_add_Inr: "datetime_add t d = Inr t' \<Longrightarrow> t' = t + d"
  by (auto simp: datetime_add_def split: if_splits)

lemma coerce_one_props:
  assumes "coerce_one cfg rings ring_shared anchor_times idx st g = Inr (st', g')"
  shows "\<exists>r h.
      r < length rings \<and> r < length ring_shared \<and> r < length anchor_times
      \<and> - burst_hours_window cfg \<le> h \<and> h \<le> burst_hours_window cfg
      \<and> idx < length (tx_person st) \<and> idx < length (tx_ts st)
      \<and> (\<exists>member \<in> set (rings ! r). tx_person st' = (tx_person st)[idx := member])
      \<and> tx_ts st' = (tx_ts st)[idx := anchor_times ! r + h * 3600000000]
      \<and> (tx_device st' = tx_device st
           \<or> idx < length (tx_device st)
             \<and> tx_device st' = (tx_device st)[idx := sh_device (ring_shared ! r)])
      \<and> (tx_ip st' = tx_ip st
           \<or> idx < length (tx_ip st) \<and> tx_ip st' = (tx_ip st)[idx := sh_ip (ring_shared ! r)])
      \<and> (tx_card st' = tx_card st
           \<or> idx < length (tx_card st)
             \<and> tx_card st' = (tx_card st)[idx := sh_card (ring_shared ! r)])
      \<and> (tx_addr st' = tx_addr st
           \<or> idx < length (tx_addr st)
             \<and> tx_addr st' = (tx_addr st)[idx := sh_addr (ring_shared ! r)])"
proof -
  from assms obtain r g1 member g2 h g3 jitter t dl g4 ipl g5 cl g6 al where
    r: "random_randrange (length rings) g = Inr (r, g1)" and
    g1: "r < length ring_shared" "r < length anchor_times" "r < length rings" and
    m: "random_choice (rings ! r) g1 = Inr (member, g2)" and
    p: "idx < length (tx_person st)" and
    h: "random_randint (- burst_hours_window cfg) (burst_hours_window cfg) g2 = Inr (h, g3)" and
    j: "timedelta_hours h = Inr jitter" and
    t: "datetime_add (anchor_times ! r) jitter = Inr t" and
    tl: "idx < length (tx_ts st)" and
    d: "overwrite_with_prob (shared_device_prob cfg) (tx_device st) idx
          (sh_device (ring_shared ! r)) g3 = Inr (dl, g4)" and
    i: "overwrite_with_prob (shared_ip_prob cfg) (tx_ip st) idx
          (sh_ip (ring_shared ! r)) g4 = Inr (ipl, g5)" and
    c: "overwrite_with_prob (shared_card_prob cfg) (tx_card st) idx
          (sh_card (ring_shared ! r)) g5 = Inr (cl, g6)" and
    a: "overwrite_with_prob (shared_address_prob cfg) (tx_addr st) idx
          (sh_addr (ring_shared ! r)) g6 = Inr (al, g')" and
    st': "st' = \<lparr>tx_person = (tx_person st)[idx := member], tx_ts = (tx_ts st)[idx := t],
                 tx_device = dl, tx_ip = ipl, tx_card = cl, tx_addr = al\<rparr>"
    unfolding coerce_one_def
    by (auto simp: res_bind_eq_Inr py_get_Inr py_set_Inr)
  have "t = anchor_times ! r + h * 3600000000"
    using timedelta_hours_Inr [OF j] datetime_add_Inr [OF t] by simp
  moreover note random_choice_mem [OF m] random_randint_range [OF h]
    overwrite_with_prob_props [OF d] overwrite_with_prob_props [OF i]
    overwrite_with_prob_props [OF c] overwrite_with_prob_props [OF a]
  ultimately show ?thesis
    using g1 p tl st' by (intro exI [of _ r] exI [of _ h]) auto
qed

lemma coerce_one_frame:
  assumes "coerce_one cfg rings ring_shared anchor_times idx st g = Inr (st', g')"
  shows "length (tx_person st') = length (tx_person st) \<and> length (tx_ts st') = length (tx_ts st)
     \<and> length (tx_device st') = length (tx_device st) \<and> length (tx_ip st') = length (tx_ip st)
     \<and> length (tx_card st') = length (tx_card st) \<and> length (tx_addr st') = length (tx_addr st)
     \<and> (\<forall>i. i \<noteq> idx \<longrightarrow>
           tx_person st' ! i = tx_person st ! i \<and> tx_ts st' ! i = tx_ts st ! i
           \<and> tx_device st' ! i = tx_device st ! i \<and> tx_ip st' ! i = tx_ip st ! i
           \<and> tx_card st' ! i = tx_card st ! i \<and> tx_addr st' ! i = tx_addr st ! i)"
  using coerce_one_props [OF assms] by (elim exE conjE bexE disjE) simp_all

lemma coerce_loop_frame:
  "coerce_loop cfg rings ring_shared anchor_times idxs st g = Inr (st', g') \<Longrightarrow>
     length (tx_person st') = length (tx_person st) \<and> length (tx_ts st') = length (tx_ts st)
     \<and> length (tx_device st') = length (tx_device st) \<and> length (tx_ip st') = length (tx_ip st)
     \<and> length (tx_card st') = length (tx_card st) \<and> length (tx_addr st') = length (tx_addr st)
     \<and> (\<forall>i. i \<notin> set idxs \<longrightarrow>
           tx_person st' ! i = tx_person st ! i \<and> tx_ts st' ! i = tx_ts st ! i
           \<and> tx_device st' ! i = tx_device st ! i \<and> tx_ip st' ! i = tx_ip st ! i
           \<and> tx_card st' ! i = tx_card st ! i \<and> tx_addr st' ! i = tx_addr st ! i)"
proof (induction idxs arbitrary: st g)
  case Nil
  then show ?case by simp
next
  case (Cons idx rest)
  from Cons.prems obtain st1 g1 where
    one: "coerce_one cfg rings ring_shared anchor_times idx st g = Inr (st1, g1)" and
    more: "coerce_loop cfg rings ring_shared anchor_times rest st1 g1 = Inr (st', g')"
    by (auto simp: res_bind_eq_Inr)
  from coerce_one_frame [OF one] Cons.IH [OF more] show ?case by simp
qed

lemma coerce_loop_burst:
  "coerce_loop cfg rings ring_shared anchor_times idxs st g = Inr (st', g') \<Longrightarrow>
   distinct idxs \<Longrightarrow>
     \<forall>idx \<in> set idxs. \<exists>r h.
        r < length rings \<and> r < length anchor_times
        \<and> - burst_hours_window cfg \<le> h \<and> h \<le> burst_hours_window cfg
        \<and> tx_ts st' ! idx = anchor_times ! r + h * 3600000000
        \<and> tx_person st' ! idx \<in> set (rings ! r)"
proof (induction idxs arbitrary: st g)
  case Nil
  then show ?case by simp
next
  case (Cons idx rest)
  from Cons.prems(1) obtain st1 g1 where
    one: "coerce_one cfg rings ring_shared anchor_times idx st g = Inr (st1, g1)" and
    more: "coerce_loop cfg rings ring_shared anchor_times rest st1 g1 = Inr (st', g')"
    by (auto simp: res_bind_eq_Inr)
  from Cons.prems(2) have nin: "idx \<notin> set rest" and d: "distinct rest" by simp_all
  from coerce_one_props [OF one] obtain r h member where
    r: "r < length rings" "r < length anchor_times"
       "- burst_hours_window cfg \<le> h" "h \<le> burst_hours_window cfg" and
    lens: "idx < length (tx_person st)" "idx < length (tx_ts st)" and
    mem: "member \<in> set (rings ! r)" and
    p1: "tx_person st1 = (tx_person st)[idx := member]" and
    t1: "tx_ts st1 = (tx_ts st)[idx := anchor_times ! r + h * 3600000000]"
    by blast
  from coerce_loop_frame [OF more] nin
  have keep: "tx_person st' ! idx = tx_person st1 ! idx" "tx_ts st' ! idx = tx_ts st1 ! idx"
    by simp_all
  have here: "\<exists>r h. r < length rings \<and> r < length anchor_times
        \<and> - burst_hours_window cfg \<le> h \<and> h \<le> burst_hours_window cfg
        \<and> tx_ts st' ! idx = anchor_times ! r + h * 3600000000
        \<and> tx_person st' ! idx \<in> set (rings ! r)"
    using r lens mem p1 t1 keep by (intro exI [of _ r] exI [of _ h]) simp
  from Cons.IH [OF more d] here show ?case by simp
qed

lemma set_update_subsetD: "set xs \<subseteq> A \<Longrightarrow> v \<in> A \<Longrightarrow> set (xs[i := v]) \<subseteq> A"
  by (metis insert_subset set_update_subset_insert subset_trans)

lemma coerce_one_refs:
  assumes "coerce_one cfg rings ring_shared anchor_times idx st g = Inr (st', g')"
    and "\<forall>r \<in> set rings. set r \<subseteq> P"
    and "\<forall>s \<in> set ring_shared. sh_device s \<in> D \<and> sh_ip s \<in> I \<and> sh_card s \<in> C \<and> sh_addr s \<in> A"
    and "set (tx_person st) \<subseteq> P" "set (tx_device st) \<subseteq> D" "set (tx_ip st) \<subseteq> I"
        "set (tx_card st) \<subseteq> C" "set (tx_addr st) \<subseteq> A"
  shows "set (tx_person st') \<subseteq> P \<and> set (tx_device st') \<subseteq> D \<and> set (tx_ip st') \<subseteq> I
     \<and> set (tx_card st') \<subseteq> C \<and> set (tx_addr st') \<subseteq> A"
proof -
  from coerce_one_props [OF assms(1)] obtain r member where
    r: "r < length rings" "r < length ring_shared" and
    mem: "member \<in> set (rings ! r)" and
    p: "tx_person st' = (tx_person st)[idx := member]" and
    d: "tx_device st' = tx_device st
         \<or> tx_device st' = (tx_device st)[idx := sh_device (ring_shared ! r)]" and
    i: "tx_ip st' = tx_ip st \<or> tx_ip st' = (tx_ip st)[idx := sh_ip (ring_shared ! r)]" and
    c: "tx_card st' = tx_card st \<or> tx_card st' = (tx_card st)[idx := sh_card (ring_shared ! r)]" and
    a: "tx_addr st' = tx_addr st \<or> tx_addr st' = (tx_addr st)[idx := sh_addr (ring_shared ! r)]"
    by blast
  have "member \<in> P" using assms(2) r(1) mem nth_mem by blast
  then have 1: "set (tx_person st') \<subseteq> P"
    using p assms(4) by (simp add: set_update_subsetD)
  have sh: "sh_device (ring_shared ! r) \<in> D" "sh_ip (ring_shared ! r) \<in> I"
    "sh_card (ring_shared ! r) \<in> C" "sh_addr (ring_shared ! r) \<in> A"
    using assms(3) r(2) nth_mem by blast+
  have 2: "set (tx_device st') \<subseteq> D"
    using d assms(5) set_update_subsetD [OF assms(5) sh(1), of idx] by (elim disjE) simp_all
  have 3: "set (tx_ip st') \<subseteq> I"
    using i assms(6) set_update_subsetD [OF assms(6) sh(2), of idx] by (elim disjE) simp_all
  have 4: "set (tx_card st') \<subseteq> C"
    using c assms(7) set_update_subsetD [OF assms(7) sh(3), of idx] by (elim disjE) simp_all
  have 5: "set (tx_addr st') \<subseteq> A"
    using a assms(8) set_update_subsetD [OF assms(8) sh(4), of idx] by (elim disjE) simp_all
  from 1 2 3 4 5 show ?thesis by simp
qed

lemma coerce_loop_refs:
  "coerce_loop cfg rings ring_shared anchor_times idxs st g = Inr (st', g') \<Longrightarrow>
   \<forall>r \<in> set rings. set r \<subseteq> P \<Longrightarrow>
   \<forall>s \<in> set ring_shared. sh_device s \<in> D \<and> sh_ip s \<in> I \<and> sh_card s \<in> C \<and> sh_addr s \<in> A \<Longrightarrow>
   set (tx_person st) \<subseteq> P \<and> set (tx_device st) \<subseteq> D \<and> set (tx_ip st) \<subseteq> I
     \<and> set (tx_card st) \<subseteq> C \<and> set (tx_addr st) \<subseteq> A \<Longrightarrow>
   set (tx_person st') \<subseteq> P \<and> set (tx_device st') \<subseteq> D \<and> set (tx_ip st') \<subseteq> I
     \<and> set (tx_card st') \<subseteq> C \<and> set (tx_addr st') \<subseteq> A"
proof (induction idxs arbitrary: st g)
  case Nil
  then show ?case by simp
next
  case (Cons idx rest)
  from Cons.prems(1) obtain st1 g1 where
    one: "coerce_one cfg rings ring_shared anchor_times idx st g = Inr (st1, g1)" and
    more: "coerce_loop cfg rings ring_shared anchor_times rest st1 g1 = Inr (st', g')"
    by (auto simp: res_bind_eq_Inr)
  from coerce_one_refs [OF one Cons.prems(2,3)] Cons.prems(4)
  have "set (tx_person st1) \<subseteq> P \<and> set (tx_device st1) \<subseteq> D \<and> set (tx_ip st1) \<subseteq> I
     \<and> set (tx_card st1) \<subseteq> C \<and> set (tx_addr st1) \<subseteq> A" by blast
  from Cons.IH [OF more Cons.prems(2,3) this] show ?case .
qed

lemma inject_Inr:
  assumes "inject cfg person_ids tx devs ip_pool card_pool addrs g = Inr out"
  obtains rings g1 fraud_idx g2 d0 i0 c0 a0 ring_shared g3 anchor_times g4 st g5 labels where
    "make_rings cfg person_ids g = Inr (rings, g1)"
    "0 < py_int (of_nat (height tx) * fraud_tx_share cfg)"
    "random_sample [0..<height tx]
       (min (py_int (of_nat (height tx) * fraud_tx_share cfg)) (int (height tx))) g1
       = Inr (fraud_idx, g2)"
    "device_id tx = Some d0" "ip tx = Some i0" "card_hash tx = Some c0"
    "address_hash tx = Some a0"
    "ring_shared_loop (length rings)
       (choose_hot devs (max 30 (py_int (of_nat (length devs) * (3 / 100)))))
       (choose_hot ip_pool (max 40 (py_int (of_nat (length ip_pool) * (4 / 100)))))
       (choose_hot card_pool (max 30 (py_int (of_nat (length card_pool) * (3 / 100)))))
       (choose_hot addrs (max 25 (py_int (of_nat (length addrs) * (3 / 100))))) g2
       = Inr (ring_shared, g3)"
    "random_sample (ts tx) (int (length rings)) g3 = Inr (anchor_times, g4)"
    "coerce_loop cfg rings ring_shared anchor_times fraud_idx
       \<lparr>tx_person = person_id tx, tx_ts = ts tx, tx_device = d0,
        tx_ip = i0, tx_card = c0, tx_addr = a0\<rparr> g4 = Inr (st, g5)"
    "label_loop fraud_idx (replicate (height tx) 0) = Inr labels"
    "out = tx\<lparr>person_id := tx_person st, ts := tx_ts st,
               device_id := Some (tx_device st), ip := Some (tx_ip st),
               card_hash := Some (tx_card st), address_hash := Some (tx_addr st),
               is_fraud := Some labels\<rparr>"
  using assms unfolding inject_def Let_def
  by (auto simp: res_bind_eq_Inr column_def split: if_splits option.splits)




text \<open>
  Claim C10 (frame property of the Ring Injector). Injection leaves the columns
  \<open>tx_id\<close>, \<open>amount\<close>, \<open>currency\<close> and \<open>merchant_id\<close> unchanged in every row, and in
  every row that was not selected for coercion (label other than 1) it leaves
  \<open>person_id\<close>, \<open>ts\<close>, \<open>device_id\<close>, \<open>ip\<close>, \<open>card_hash\<close> and \<open>address_hash\<close>
  unchanged and sets \<open>is_fraud = 0\<close>.
\<close>

theorem injection_frame:
  assumes run: "inject cfg person_ids tx devs ip_pool card_pool addrs g = Inr out"
  shows "tx_id out = tx_id tx \<and> amount out = amount tx \<and> currency out = currency tx
     \<and> merchant_id out = merchant_id tx
     \<and> (\<exists>d0 i0 c0 a0 d i c a labels.
          device_id tx = Some d0 \<and> ip tx = Some i0 \<and> card_hash tx = Some c0
          \<and> address_hash tx = Some a0
          \<and> device_id out = Some d \<and> ip out = Some i \<and> card_hash out = Some c
          \<and> address_hash out = Some a \<and> is_fraud out = Some labels
          \<and> (\<forall>k < height tx. labels ! k \<noteq> 1 \<longrightarrow>
                labels ! k = 0
                \<and> person_id out ! k = person_id tx ! k \<and> ts out ! k = ts tx ! k
                \<and> d ! k = d0 ! k \<and> i ! k = i0 ! k \<and> c ! k = c0 ! k \<and> a ! k = a0 ! k))"
proof -
  from run obtain rings ring_shared anchor_times fraud_idx d0 i0 c0 a0 g4 st g5 labels where
    cols: "device_id tx = Some d0" "ip tx = Some i0" "card_hash tx = Some c0"
          "address_hash tx = Some a0" and
    loop: "coerce_loop cfg rings ring_shared anchor_times fraud_idx
             \<lparr>tx_person = person_id tx, tx_ts = ts tx, tx_device = d0,
              tx_ip = i0, tx_card = c0, tx_addr = a0\<rparr> g4 = Inr (st, g5)" and
    lab: "label_loop fraud_idx (replicate (height tx) 0) = Inr labels" and
    out: "out = tx\<lparr>person_id := tx_person st, ts := tx_ts st,
               device_id := Some (tx_device st), ip := Some (tx_ip st),
               card_hash := Some (tx_card st), address_hash := Some (tx_addr st),
               is_fraud := Some labels\<rparr>"
    by (elim inject_Inr) 
  from label_loop_props [OF lab]
  have lv: "\<forall>k < height tx. labels ! k = (if k \<in> set fraud_idx then 1 else 0)" by simp
  from coerce_loop_frame [OF loop]
  have fr: "\<forall>k. k \<notin> set fraud_idx \<longrightarrow>
           tx_person st ! k = person_id tx ! k \<and> tx_ts st ! k = ts tx ! k
           \<and> tx_device st ! k = d0 ! k \<and> tx_ip st ! k = i0 ! k
           \<and> tx_card st ! k = c0 ! k \<and> tx_addr st ! k = a0 ! k" by simp
  have rows: "\<forall>k < height tx. labels ! k \<noteq> 1 \<longrightarrow>
                labels ! k = 0
                \<and> tx_person st ! k = person_id tx ! k \<and> tx_ts st ! k = ts tx ! k
                \<and> tx_device st ! k = d0 ! k \<and> tx_ip st ! k = i0 ! k
                \<and> tx_card st ! k = c0 ! k \<and> tx_addr st ! k = a0 ! k"
  proof (intro allI impI)
    fix k assume k: "k < height tx" and n1: "labels ! k \<noteq> 1"
    from lv k n1 have "k \<notin> set fraud_idx" by (auto split: if_splits)
    with lv k fr show "labels ! k = 0
                \<and> tx_person st ! k = person_id tx ! k \<and> tx_ts st ! k = ts tx ! k
                \<and> tx_device st ! k = d0 ! k \<and> tx_ip st ! k = i0 ! k
                \<and> tx_card st ! k = c0 ! k \<and> tx_addr st ! k = a0 ! k" by simp
  qed
  show ?thesis using cols rows unfolding out by simp
qed

text \<open>
  Claim C9 (burst timing). One anchor timestamp is drawn per ring, the anchors being a
  sample without replacement of the timestamps of the transaction table (a
  sub-multiset of the column), and every coerced row gets the timestamp of the anchor
  of the ring chosen for it (the ring its new Person belongs to) plus a whole number of
  hours \<open>h\<close> with \<open>|h| \<le> burst_hours_window\<close>; a timestamp counts microseconds.
\<close>

theorem burst_timing:
  assumes run: "inject cfg person_ids tx devs ip_pool card_pool addrs g = Inr out"
  shows "\<exists>rings g1 anchor_times labels.
      make_rings cfg person_ids g = Inr (rings, g1)
      \<and> length anchor_times = length rings
      \<and> mset anchor_times \<subseteq># mset (ts tx)
      \<and> is_fraud out = Some labels
      \<and> (\<forall>k < height tx. labels ! k = 1 \<longrightarrow>
            (\<exists>r h. r < length rings
               \<and> - burst_hours_window cfg \<le> h \<and> h \<le> burst_hours_window cfg
               \<and> ts out ! k = anchor_times ! r + h * 3600000000
               \<and> person_id out ! k \<in> set (rings ! r)))"
proof -
  from run obtain rings g1 fraud_idx g2 d0 i0 c0 a0 ring_shared g3 anchor_times g4 st g5 labels
    where
    mk: "make_rings cfg person_ids g = Inr (rings, g1)" and
    smp: "random_sample [0..<height tx]
       (min (py_int (of_nat (height tx) * fraud_tx_share cfg)) (int (height tx))) g1
       = Inr (fraud_idx, g2)" and
    anc: "random_sample (ts tx) (int (length rings)) g3 = Inr (anchor_times, g4)" and
    loop: "coerce_loop cfg rings ring_shared anchor_times fraud_idx
             \<lparr>tx_person = person_id tx, tx_ts = ts tx, tx_device = d0,
              tx_ip = i0, tx_card = c0, tx_addr = a0\<rparr> g4 = Inr (st, g5)" and
    lab: "label_loop fraud_idx (replicate (height tx) 0) = Inr labels" and
    out: "out = tx\<lparr>person_id := tx_person st, ts := tx_ts st,
               device_id := Some (tx_device st), ip := Some (tx_ip st),
               card_hash := Some (tx_card st), address_hash := Some (tx_addr st),
               is_fraud := Some labels\<rparr>"
    by (elim inject_Inr)
  from random_sample_range [OF smp] have d: "distinct fraud_idx" by simp
  from random_sample_props [OF anc]
  have al: "length anchor_times = length rings" and am: "mset anchor_times \<subseteq># mset (ts tx)"
    by simp_all
  from label_loop_props [OF lab]
  have lv: "\<forall>k < height tx. labels ! k = (if k \<in> set fraud_idx then 1 else 0)" by simp
  have rows: "\<forall>k < height tx. labels ! k = 1 \<longrightarrow>
            (\<exists>r h. r < length rings
               \<and> - burst_hours_window cfg \<le> h \<and> h \<le> burst_hours_window cfg
               \<and> tx_ts st ! k = anchor_times ! r + h * 3600000000
               \<and> tx_person st ! k \<in> set (rings ! r))"
  proof (intro allI impI)
    fix k assume k: "k < height tx" and l1: "labels ! k = 1"
    from lv k l1 have "k \<in> set fraud_idx" by (auto split: if_splits)
    with coerce_loop_burst [OF loop d]
    show "\<exists>r h. r < length rings
               \<and> - burst_hours_window cfg \<le> h \<and> h \<le> burst_hours_window cfg
               \<and> tx_ts st ! k = anchor_times ! r + h * 3600000000
               \<and> tx_person st ! k \<in> set (rings ! r)" by blast
  qed
  show ?thesis
    using mk al am rows unfolding out
    by (intro exI [of _ rings] exI [of _ g1] exI [of _ anchor_times] exI [of _ labels]) simp
qed

lemma inject_tx3:
  "inject cfg_small four_people tx3 pool_devices pool_ips pool_cards pool_addrs draws3
     = Inr tx3_out"
  by code_simp



lemma make_rings_draws3:
  "make_rings cfg_small four_people draws3
     = Inr ([[''P000002'', ''P000003''], [''P000000'']],
            [1, 1, 0, 1, 0, 0, 1, 0, 1, 2, 0, 1, 0, 3, 4503599627370496,
             4503599627370496, 4503599627370496, 4503599627370496])"
  by code_simp




theorem injection_frame_witness:
  "inject cfg_small four_people tx3 pool_devices pool_ips pool_cards pool_addrs draws3
     = Inr tx3_out
   \<and> tx_id tx3_out = tx_id tx3 \<and> amount tx3_out = amount tx3
   \<and> currency tx3_out = currency tx3 \<and> merchant_id tx3_out = merchant_id tx3
   \<and> is_fraud tx3_out = Some [0, 1, 0]
   \<and> person_id tx3_out ! 2 = person_id tx3 ! 2 \<and> ts tx3_out ! 2 = ts tx3 ! 2
   \<and> the (device_id tx3_out) ! 2 = the (device_id tx3) ! 2
   \<and> the (ip tx3_out) ! 2 = the (ip tx3) ! 2
   \<and> the (card_hash tx3_out) ! 2 = the (card_hash tx3) ! 2
   \<and> the (address_hash tx3_out) ! 2 = the (address_hash tx3) ! 2"
proof -
  from injection_frame [OF inject_tx3]
  have "tx_id tx3_out = tx_id tx3 \<and> amount tx3_out = amount tx3
     \<and> currency tx3_out = currency tx3 \<and> merchant_id tx3_out = merchant_id tx3"
    by blast
  then show ?thesis
    using inject_tx3 by (simp add: tx3_out_def tx3_def)
qed

theorem burst_timing_witness:
  "inject cfg_small four_people tx3 pool_devices pool_ips pool_cards pool_addrs draws3
     = Inr tx3_out
   \<and> (\<exists>rings g1 anchor_times labels.
      make_rings cfg_small four_people draws3 = Inr (rings, g1)
      \<and> length anchor_times = length rings
      \<and> mset anchor_times \<subseteq># mset (ts tx3)
      \<and> is_fraud tx3_out = Some labels
      \<and> (\<forall>k < height tx3. labels ! k = 1 \<longrightarrow>
            (\<exists>r h. r < length rings
               \<and> - burst_hours_window cfg_small \<le> h \<and> h \<le> burst_hours_window cfg_small
               \<and> ts tx3_out ! k = anchor_times ! r + h * 3600000000
               \<and> person_id tx3_out ! k \<in> set (rings ! r))))
   \<and> the (is_fraud tx3_out) ! 1 = 1
   \<and> ts tx3_out ! 1 = ts tx3 ! 0 + 1 * 3600000000
   \<and> 1 \<le> burst_hours_window cfg_small"
proof -
  note burst_timing [OF inject_tx3]
  then show ?thesis
    using inject_tx3 by (simp add: tx3_out_def tx3_def cfg_small_def)
qed

section \<open>Verification: Reuse Sampler\<close>

lemma reuse_loop_replicate:
  "reuse_loop k pool hot strength out g =
     res_bind (rng_replicate k (spec_draw pool hot strength) g) (\<lambda>(xs, g'). Inr (out @ xs, g'))"
proof (induction k arbitrary: out g)
  case 0
  then show ?case by simp
next
  case (Suc k)
  obtain u g1 where u: "random_random g = (u, g1)" by (cases "random_random g")
  show ?case
  proof (cases "spec_draw pool hot strength g")
    case (Inl e)
    then show ?thesis using u by (simp add: spec_draw_def split: if_splits)
  next
    case (Inr p)
    obtain x g2 where p: "p = (x, g2)" by (cases p)
    have "reuse_loop (Suc k) pool hot strength out g
          = reuse_loop k pool hot strength (out @ [x]) g2"
      using Inr p u by (simp add: spec_draw_def split: if_splits)
    also have "\<dots> = res_bind (rng_replicate k (spec_draw pool hot strength) g2)
                        (\<lambda>(xs, g'). Inr ((out @ [x]) @ xs, g'))"
      by (rule Suc.IH)
    also have "\<dots> = res_bind (rng_replicate (Suc k) (spec_draw pool hot strength) g)
                        (\<lambda>(xs, g'). Inr (out @ xs, g'))"
      using Inr p
      by (cases "rng_replicate k (spec_draw pool hot strength) g2") (auto simp: case_prod_unfold)
    finally show ?thesis .
  qed
qed






section \<open>Verification: the generation pipeline\<close>

lemma rng_replicate_all:
  "rng_replicate n f g = Inr (xs, g') \<Longrightarrow> (\<And>g x g'. f g = Inr (x, g') \<Longrightarrow> P x)
     \<Longrightarrow> length xs = n \<and> (\<forall>x \<in> set xs. P x)"
proof (induction n arbitrary: g xs)
  case 0
  then show ?case by simp
next
  case (Suc n)
  from Suc.prems(1) obtain x g1 rest where
    f: "f g = Inr (x, g1)" and r: "rng_replicate n f g1 = Inr (rest, g')" and xs: "xs = x # rest"
    by (auto simp: res_bind_eq_Inr)
  from Suc.IH [OF r Suc.prems(2)] Suc.prems(2) [OF f] xs show ?case by simp
qed

lemma rng_replicate_length: "rng_replicate n f g = Inr (xs, g') \<Longrightarrow> length xs = n"
  using rng_replicate_all [of n f g xs g' "\<lambda>_. True"] by simp

lemma set_py_slice: "set (py_slice xs i j) \<subseteq> set xs"
  unfolding py_slice_def Let_def
  by (meson set_drop_subset set_take_subset subset_trans)

lemma set_choose_hot: "set (choose_hot pool k) \<subseteq> set pool"
  unfolding choose_hot_def by (rule set_py_slice)

lemma build_rings_subset:
  "build_rings cfg ids k cursor rings g = Inr (rings', g') \<Longrightarrow>
   \<forall>r \<in> set rings. set r \<subseteq> set ids \<Longrightarrow> \<forall>r \<in> set rings'. set r \<subseteq> set ids"
proof (induction k arbitrary: cursor rings g)
  case 0
  then show ?case by simp
next
  case (Suc k)
  from Suc.prems(1) obtain sz g1 where
    rest: "(if cursor + sz > int (length ids) then Inr (rings, g1)
            else build_rings cfg ids k (cursor + sz)
                   (rings @ [py_slice ids cursor (cursor + sz)]) g1) = Inr (rings', g')"
    by (auto simp: res_bind_eq_Inr)
  show ?case
  proof (cases "cursor + sz > int (length ids)")
    case True
    with rest Suc.prems(2) show ?thesis by simp
  next
    case False
    with rest have
      b: "build_rings cfg ids k (cursor + sz) (rings @ [py_slice ids cursor (cursor + sz)]) g1
            = Inr (rings', g')" by simp
    have "\<forall>r \<in> set (rings @ [py_slice ids cursor (cursor + sz)]). set r \<subseteq> set ids"
      using Suc.prems(2) set_py_slice [of ids cursor "cursor + sz"] by auto
    from Suc.IH [OF b this] show ?thesis .
  qed
qed

lemma make_rings_subset:
  assumes "make_rings cfg person_ids g = Inr (rings, g')"
  shows "\<forall>r \<in> set rings. set r \<subseteq> set person_ids"
proof -
  obtain shuffled g1 where sh: "random_shuffle person_ids g = (shuffled, g1)"
    by (cases "random_shuffle person_ids g")
  have s: "set shuffled = set person_ids"
    using random_shuffle_mset [of person_ids g] sh by (metis fst_conv set_mset_mset)
  from assms sh obtain g2 where
    b: "build_rings cfg shuffled (nat (n_rings cfg)) 0 [] g1 = Inr (rings, g2)"
    by (auto simp: make_rings_def res_bind_eq_Inr split: if_splits)
  from build_rings_subset [OF b] s show ?thesis by simp
qed

lemma ring_shared_loop_mem:
  "ring_shared_loop k hot_d hot_i hot_c hot_a g = Inr (sh, g') \<Longrightarrow>
     \<forall>s \<in> set sh. sh_device s \<in> set hot_d \<and> sh_ip s \<in> set hot_i
        \<and> sh_card s \<in> set hot_c \<and> sh_addr s \<in> set hot_a"
proof (induction k arbitrary: g sh)
  case 0
  then show ?case by simp
next
  case (Suc k)
  from Suc.prems obtain d g1 i g2 c g3 a g4 rest where
    d: "random_choice hot_d g = Inr (d, g1)" and i: "random_choice hot_i g1 = Inr (i, g2)" and
    c: "random_choice hot_c g2 = Inr (c, g3)" and a: "random_choice hot_a g3 = Inr (a, g4)" and
    r: "ring_shared_loop k hot_d hot_i hot_c hot_a g4 = Inr (rest, g')" and
    sh: "sh = \<lparr>sh_device = d, sh_ip = i, sh_card = c, sh_addr = a\<rparr> # rest"
    by (auto simp: res_bind_eq_Inr)
  from Suc.IH [OF r] random_choice_mem [OF d] random_choice_mem [OF i]
    random_choice_mem [OF c] random_choice_mem [OF a] sh
  show ?case by simp
qed

lemma spec_draw_mem:
  assumes "spec_draw pool hot strength g = Inr (x, g')" "set hot \<subseteq> set pool"
  shows "x \<in> set pool"
proof -
  obtain u g1 where u: "random_random g = (u, g1)" by (cases "random_random g")
  from assms(1) u have "random_choice hot g1 = Inr (x, g') \<or> random_choice pool g1 = Inr (x, g')"
    by (auto simp: spec_draw_def split: if_splits)
  with assms(2) show ?thesis by (auto dest: random_choice_mem)
qed

lemma sample_with_reuse_props:
  assumes "sample_with_reuse pool n strength g = Inr (out, g')"
  shows "length out = n \<and> set out \<subseteq> set pool"
proof -
  let ?hot = "py_slice pool 0
     (max 10 (py_int (of_nat (length pool) * max (2 / 100) (min (2 / 10) strength))))"
  from assms have "reuse_loop n pool ?hot strength [] g = Inr (out, g')"
    by (auto simp: sample_with_reuse_def Let_def split: if_splits)
  then have r: "rng_replicate n (spec_draw pool ?hot strength) g = Inr (out, g')"
    unfolding reuse_loop_replicate by (auto simp: res_bind_eq_Inr)
  have "\<And>g x g'. spec_draw pool ?hot strength g = Inr (x, g') \<Longrightarrow> x \<in> set pool"
    using spec_draw_mem [OF _ set_py_slice] by blast
  from rng_replicate_all [OF r, of "\<lambda>x. x \<in> set pool"] this show ?thesis by auto
qed

lemma length_make_ids: "length (make_ids prefix n width) = nat n"
  by (simp add: make_ids_def)

lemma rng_replicate_choice:
  assumes "rng_replicate n (random_choice xs) g = Inr (ys, g')"
  shows "length ys = n \<and> set ys \<subseteq> set xs"
proof -
  have "\<And>g x g'. random_choice xs g = Inr (x, g') \<Longrightarrow> x \<in> set xs"
    by (rule random_choice_mem)
  from rng_replicate_all [OF assms, of "\<lambda>x. x \<in> set xs", OF this] show ?thesis by auto
qed

lemma generate_transactions_props:
  assumes "generate_transactions cfg people_t merchants_t g = Inr (tx, g')"
  shows "wf_tx tx
     \<and> set (person_id tx) \<subseteq> set (people_frame.person_id people_t)
     \<and> set (merchant_id tx) \<subseteq> set (merchants_frame.merchant_id merchants_t)"
proof -
  let ?n = "nat (n_transactions cfg)"
  from assms obtain tss g1 amounts g2 persons g3 ms where
    a: "rng_replicate ?n random_ts g = Inr (tss, g1)" and
    b: "rng_replicate ?n random_amount g1 = Inr (amounts, g2)" and
    c: "rng_replicate ?n (random_choice (people_frame.person_id people_t)) g2
          = Inr (persons, g3)" and
    d: "rng_replicate ?n (random_choice (merchants_frame.merchant_id merchants_t)) g3
          = Inr (ms, g')" and
    tx: "tx = \<lparr>tx_id = make_ids ''T'' (n_transactions cfg) 8, ts = tss, amount = amounts,
              currency = replicate ?n ''GBP'', person_id = persons, merchant_id = ms,
              device_id = None, ip = None, card_hash = None, address_hash = None,
              is_fraud = None\<rparr>"
    unfolding generate_transactions_def Let_def by (auto simp: res_bind_eq_Inr)
  note rng_replicate_length [OF a] rng_replicate_length [OF b]
    rng_replicate_choice [OF c] rng_replicate_choice [OF d]
  then show ?thesis
    unfolding tx by (simp add: wf_tx_def height_def opt_height_def length_make_ids)
qed

lemma generate_main_Inr:
  assumes "generate_main mt sim ga store = Inr s1"
  shows "\<exists>p m t. s1 = store\<lparr>people := Some p, merchants := Some m, transactions := Some t\<rparr>
     \<and> wf_tx t
     \<and> set (person_id t) \<subseteq> set (people_frame.person_id p)
     \<and> set (merchant_id t) \<subseteq> set (merchants_frame.merchant_id m)"
proof -
  from assms obtain m g1 t g2 where
    "generate_transactions sim (generate_people sim) m g1 = Inr (t, g2)" and
    "s1 = store\<lparr>people := Some (generate_people sim), merchants := Some m,
                transactions := Some t\<rparr>"
    unfolding generate_main_def Let_def write_bronze_def by (auto simp: res_bind_eq_Inr)
  with generate_transactions_props show ?thesis by blast
qed

lemma enrich_main_Inr:
  assumes "enrich_main mt infra gb s1 = Inr s2"
  shows "\<exists>t d i c a dl il cl al.
       transactions s1 = Some t
     \<and> s2 = s1\<lparr>devices := Some d, ips := Some i, cards := Some c, addresses := Some a,
               transactions := Some (t\<lparr>device_id := Some dl, ip := Some il,
                                        card_hash := Some cl, address_hash := Some al\<rparr>)\<rparr>
     \<and> length dl = height t \<and> length il = height t
     \<and> length cl = height t \<and> length al = height t
     \<and> set dl \<subseteq> set (devices_frame.device_id d) \<and> set il \<subseteq> set (ips_frame.ip i)
     \<and> set cl \<subseteq> set (cards_frame.card_hash c)
     \<and> set al \<subseteq> set (addresses_frame.address_hash a)"
proof -
  let ?g = "random_seed mt (InfraConfig.seed infra) gb"
  let ?dev = "make_ids ''D'' (n_devices infra) 7"
  let ?card = "make_ids ''C'' (n_cards infra) 8"
  let ?addr = "make_ids ''A'' (n_addresses infra) 7"
  from assms obtain t ip_values g1 dl g2 il g3 cl g4 al g5 where
    t: "transactions s1 = Some t" and
    d: "sample_with_reuse ?dev (height t) (reuse_strength infra) g1 = Inr (dl, g2)" and
    i: "sample_with_reuse ip_values (height t) (reuse_strength infra) g2 = Inr (il, g3)" and
    c: "sample_with_reuse ?card (height t) (reuse_strength infra) g3 = Inr (cl, g4)" and
    a: "sample_with_reuse ?addr (height t) (reuse_strength infra) g4 = Inr (al, g5)" and
    s2: "s2 = s1\<lparr>devices := Some \<lparr>devices_frame.device_id = ?dev,
                                   device_type = replicate (nat (n_devices infra)) ''mobile''\<rparr>,
                   ips := Some \<lparr>ips_frame.ip = ip_values\<rparr>,
                   cards := Some \<lparr>cards_frame.card_hash = ?card\<rparr>,
                   addresses := Some \<lparr>addresses_frame.address_hash = ?addr,
                                     postcode = replicate (nat (n_addresses infra)) ''UK''\<rparr>,
                   transactions := Some (t\<lparr>device_id := Some dl, ip := Some il,
                                            card_hash := Some cl,
                                            address_hash := Some al\<rparr>)\<rparr>"
    unfolding enrich_main_def Let_def read_parquet_def
    by (auto simp: res_bind_eq_Inr split: option.splits)
  show ?thesis
    apply (rule exI [of _ t])
    apply (rule exI [of _ "\<lparr>devices_frame.device_id = ?dev,
                          device_type = replicate (nat (n_devices infra)) ''mobile''\<rparr>"])
    apply (rule exI [of _ "\<lparr>ips_frame.ip = ip_values\<rparr>"])
    apply (rule exI [of _ "\<lparr>cards_frame.card_hash = ?card\<rparr>"])
    apply (rule exI [of _ "\<lparr>addresses_frame.address_hash = ?addr,
                          postcode = replicate (nat (n_addresses infra)) ''UK''\<rparr>"])
    apply (rule exI [of _ dl])
    apply (rule exI [of _ il])
    apply (rule exI [of _ cl])
    apply (rule exI [of _ al])
    using sample_with_reuse_props [OF d] sample_with_reuse_props [OF i]
      sample_with_reuse_props [OF c] sample_with_reuse_props [OF a] t s2
    apply simp
    done
qed

lemma inject_refs:
  assumes run: "inject cfg pids tx devs ip_pool card_pool addrs g = Inr out"
    and wf: "wf_tx tx"
    and p: "set (person_id tx) \<subseteq> set pids"
    and d: "\<And>xs. device_id tx = Some xs \<Longrightarrow> set xs \<subseteq> set devs"
    and i: "\<And>xs. ip tx = Some xs \<Longrightarrow> set xs \<subseteq> set ip_pool"
    and c: "\<And>xs. card_hash tx = Some xs \<Longrightarrow> set xs \<subseteq> set card_pool"
    and a: "\<And>xs. address_hash tx = Some xs \<Longrightarrow> set xs \<subseteq> set addrs"
  shows "wf_tx out \<and> merchant_id out = merchant_id tx
     \<and> set (person_id out) \<subseteq> set pids
     \<and> (\<exists>dl il cl al. device_id out = Some dl \<and> ip out = Some il
           \<and> card_hash out = Some cl \<and> address_hash out = Some al
           \<and> set dl \<subseteq> set devs \<and> set il \<subseteq> set ip_pool
           \<and> set cl \<subseteq> set card_pool \<and> set al \<subseteq> set addrs)"
proof -
  from run obtain rings g1 fraud_idx g2 d0 i0 c0 a0 ring_shared g3 anchor_times g4 st g5 labels
    where
    mk: "make_rings cfg pids g = Inr (rings, g1)" and
    cols: "device_id tx = Some d0" "ip tx = Some i0" "card_hash tx = Some c0"
          "address_hash tx = Some a0" and
    sh: "ring_shared_loop (length rings)
       (choose_hot devs (max 30 (py_int (of_nat (length devs) * (3 / 100)))))
       (choose_hot ip_pool (max 40 (py_int (of_nat (length ip_pool) * (4 / 100)))))
       (choose_hot card_pool (max 30 (py_int (of_nat (length card_pool) * (3 / 100)))))
       (choose_hot addrs (max 25 (py_int (of_nat (length addrs) * (3 / 100))))) g2
       = Inr (ring_shared, g3)" and
    loop: "coerce_loop cfg rings ring_shared anchor_times fraud_idx
             \<lparr>tx_person = person_id tx, tx_ts = ts tx, tx_device = d0,
              tx_ip = i0, tx_card = c0, tx_addr = a0\<rparr> g4 = Inr (st, g5)" and
    lab: "label_loop fraud_idx (replicate (height tx) 0) = Inr labels" and
    out: "out = tx\<lparr>person_id := tx_person st, ts := tx_ts st,
               device_id := Some (tx_device st), ip := Some (tx_ip st),
               card_hash := Some (tx_card st), address_hash := Some (tx_addr st),
               is_fraud := Some labels\<rparr>"
    by (elim inject_Inr)
  have rs: "\<forall>r \<in> set rings. set r \<subseteq> set pids" using mk by (rule make_rings_subset)
  have shs: "\<forall>s \<in> set ring_shared. sh_device s \<in> set devs \<and> sh_ip s \<in> set ip_pool
               \<and> sh_card s \<in> set card_pool \<and> sh_addr s \<in> set addrs"
  proof
    fix s assume "s \<in> set ring_shared"
    with ring_shared_loop_mem [OF sh] have
      "sh_device s \<in> set (choose_hot devs (max 30 (py_int (of_nat (length devs) * (3 / 100)))))"
      "sh_ip s \<in> set (choose_hot ip_pool (max 40 (py_int (of_nat (length ip_pool) * (4 / 100)))))"
      "sh_card s \<in> set (choose_hot card_pool (max 30 (py_int (of_nat (length card_pool) * (3 / 100)))))"
      "sh_addr s \<in> set (choose_hot addrs (max 25 (py_int (of_nat (length addrs) * (3 / 100)))))"
      by blast+
    then show "sh_device s \<in> set devs \<and> sh_ip s \<in> set ip_pool
               \<and> sh_card s \<in> set card_pool \<and> sh_addr s \<in> set addrs"
      by (meson set_choose_hot subsetD)
  qed
  have init: "set (tx_person \<lparr>tx_person = person_id tx, tx_ts = ts tx, tx_device = d0,
              tx_ip = i0, tx_card = c0, tx_addr = a0\<rparr>) \<subseteq> set pids
        \<and> set (tx_device \<lparr>tx_person = person_id tx, tx_ts = ts tx, tx_device = d0,
              tx_ip = i0, tx_card = c0, tx_addr = a0\<rparr>) \<subseteq> set devs
        \<and> set (tx_ip \<lparr>tx_person = person_id tx, tx_ts = ts tx, tx_device = d0,
              tx_ip = i0, tx_card = c0, tx_addr = a0\<rparr>) \<subseteq> set ip_pool
        \<and> set (tx_card \<lparr>tx_person = person_id tx, tx_ts = ts tx, tx_device = d0,
              tx_ip = i0, tx_card = c0, tx_addr = a0\<rparr>) \<subseteq> set card_pool
        \<and> set (tx_addr \<lparr>tx_person = person_id tx, tx_ts = ts tx, tx_device = d0,
              tx_ip = i0, tx_card = c0, tx_addr = a0\<rparr>) \<subseteq> set addrs"
    using p d [OF cols(1)] i [OF cols(2)] c [OF cols(3)] a [OF cols(4)] by simp
  from coerce_loop_refs [OF loop rs shs init]
  have refs: "set (tx_person st) \<subseteq> set pids \<and> set (tx_device st) \<subseteq> set devs
     \<and> set (tx_ip st) \<subseteq> set ip_pool \<and> set (tx_card st) \<subseteq> set card_pool
     \<and> set (tx_addr st) \<subseteq> set addrs" .
  from coerce_loop_frame [OF loop]
  have lens: "length (tx_person st) = length (person_id tx)" "length (tx_ts st) = length (ts tx)"
    "length (tx_device st) = length d0" "length (tx_ip st) = length i0"
    "length (tx_card st) = length c0" "length (tx_addr st) = length a0" by simp_all
  from label_loop_props [OF lab] have ll: "length labels = height tx" by simp
  have "wf_tx out"
    using wf cols lens ll unfolding out by (simp add: wf_tx_def height_def opt_height_def)
  with refs show ?thesis unfolding out by simp
qed

lemma inject_main_Inr:
  assumes "inject_main mt cfg gc s2 = Inr s"
  shows "\<exists>p t d i c a out.
      people s2 = Some p \<and> transactions s2 = Some t \<and> devices s2 = Some d
      \<and> ips s2 = Some i \<and> cards s2 = Some c \<and> addresses s2 = Some a
      \<and> inject cfg (people_frame.person_id p) t (devices_frame.device_id d) (ips_frame.ip i)
           (cards_frame.card_hash c) (addresses_frame.address_hash a)
           (random_seed mt (RingConfig.seed cfg) gc) = Inr out
      \<and> s = s2\<lparr>transactions := Some out\<rparr>"
  using assms unfolding inject_main_def Let_def read_parquet_def
  by (auto simp: res_bind_eq_Inr split: option.splits)

text \<open>
  Claim C5 (referential integrity of the final Transaction table). When the three
  generation stages complete, the store holds all seven tables, the columns of the
  Transaction table all have its height, and every value of its \<open>person_id\<close>,
  \<open>merchant_id\<close>, \<open>device_id\<close>, \<open>ip\<close>, \<open>card_hash\<close> and \<open>address_hash\<close> columns occurs in
  the key column of the People, Merchants, Devices, IPs, Cards and Addresses table.
\<close>

theorem pipeline_referential_integrity:
  assumes run: "pipeline mt sim infra ring ga gb gc store = Inr s"
  shows "\<exists>p m d i c a tx dl il cl al.
      people s = Some p \<and> merchants s = Some m \<and> devices s = Some d \<and> ips s = Some i
      \<and> cards s = Some c \<and> addresses s = Some a \<and> transactions s = Some tx
      \<and> wf_tx tx
      \<and> device_id tx = Some dl \<and> ip tx = Some il \<and> card_hash tx = Some cl
      \<and> address_hash tx = Some al
      \<and> set (person_id tx) \<subseteq> set (people_frame.person_id p)
      \<and> set (merchant_id tx) \<subseteq> set (merchants_frame.merchant_id m)
      \<and> set dl \<subseteq> set (devices_frame.device_id d)
      \<and> set il \<subseteq> set (ips_frame.ip i)
      \<and> set cl \<subseteq> set (cards_frame.card_hash c)
      \<and> set al \<subseteq> set (addresses_frame.address_hash a)"
proof -
  from run obtain s1 s2 where
    g: "generate_main mt sim ga store = Inr s1" and
    e: "enrich_main mt infra gb s1 = Inr s2" and
    j: "inject_main mt ring gc s2 = Inr s"
    unfolding pipeline_def by (auto simp: res_bind_eq_Inr)
  from generate_main_Inr [OF g] obtain p m t where
    s1: "s1 = store\<lparr>people := Some p, merchants := Some m, transactions := Some t\<rparr>" and
    wt: "wf_tx t" and
    tp: "set (person_id t) \<subseteq> set (people_frame.person_id p)" and
    tm: "set (merchant_id t) \<subseteq> set (merchants_frame.merchant_id m)"
    by blast
  from enrich_main_Inr [OF e] s1 obtain d i c a dl il cl al where
    s2: "s2 = s1\<lparr>devices := Some d, ips := Some i, cards := Some c, addresses := Some a,
               transactions := Some (t\<lparr>device_id := Some dl, ip := Some il,
                                        card_hash := Some cl, address_hash := Some al\<rparr>)\<rparr>" and
    len: "length dl = height t" "length il = height t" "length cl = height t"
         "length al = height t" and
    sub: "set dl \<subseteq> set (devices_frame.device_id d)" "set il \<subseteq> set (ips_frame.ip i)"
         "set cl \<subseteq> set (cards_frame.card_hash c)"
         "set al \<subseteq> set (addresses_frame.address_hash a)"
    by auto
  define t' where "t' = t\<lparr>device_id := Some dl, ip := Some il,
                            card_hash := Some cl, address_hash := Some al\<rparr>"
  have wt': "wf_tx t'"
    using wt len unfolding t'_def by (simp add: wf_tx_def height_def opt_height_def)
  from inject_main_Inr [OF j] s1 s2 obtain out where
    inj: "inject ring (people_frame.person_id p) t' (devices_frame.device_id d) (ips_frame.ip i)
           (cards_frame.card_hash c) (addresses_frame.address_hash a)
           (random_seed mt (RingConfig.seed ring) gc) = Inr out" and
    s: "s = s2\<lparr>transactions := Some out\<rparr>"
    unfolding t'_def by auto
  have "wf_tx out \<and> merchant_id out = merchant_id t'
     \<and> set (person_id out) \<subseteq> set (people_frame.person_id p)
     \<and> (\<exists>dl il cl al. device_id out = Some dl \<and> ip out = Some il
           \<and> card_hash out = Some cl \<and> address_hash out = Some al
           \<and> set dl \<subseteq> set (devices_frame.device_id d) \<and> set il \<subseteq> set (ips_frame.ip i)
           \<and> set cl \<subseteq> set (cards_frame.card_hash c)
           \<and> set al \<subseteq> set (addresses_frame.address_hash a))"
    using inj wt'
  proof (rule inject_refs)
    show "set (person_id t') \<subseteq> set (people_frame.person_id p)"
      using tp by (simp add: t'_def)
  qed (use sub in \<open>simp_all add: t'_def\<close>)
  then obtain dl' il' cl' al' where
    o: "wf_tx out" "merchant_id out = merchant_id t'"
       "set (person_id out) \<subseteq> set (people_frame.person_id p)"
       "device_id out = Some dl'" "ip out = Some il'" "card_hash out = Some cl'"
       "address_hash out = Some al'"
       "set dl' \<subseteq> set (devices_frame.device_id d)" "set il' \<subseteq> set (ips_frame.ip i)"
       "set cl' \<subseteq> set (cards_frame.card_hash c)"
       "set al' \<subseteq> set (addresses_frame.address_hash a)"
    by blast
  have mo: "set (merchant_id out) \<subseteq> set (merchants_frame.merchant_id m)"
    using o(2) tm by (simp add: t'_def)
  show ?thesis
    apply (rule exI [of _ p], rule exI [of _ m], rule exI [of _ d], rule exI [of _ i])
    apply (rule exI [of _ c], rule exI [of _ a], rule exI [of _ out])
    apply (rule exI [of _ dl'], rule exI [of _ il'], rule exI [of _ cl'], rule exI [of _ al'])
    using o mo unfolding s s2 s1 apply simp
    done
qed

lemma pipeline_small:
  "pipeline mt_demo sim_small infra_small cfg_small [] [] [] empty_bronze = Inr bronze_final"
  by code_simp

theorem pipeline_referential_integrity_witness:
  "pipeline mt_demo sim_small infra_small cfg_small [] [] [] empty_bronze = Inr bronze_final
   \<and> transactions bronze_final = Some tx_final
   \<and> wf_tx tx_final
   \<and> set (person_id tx_final) \<subseteq> set [''P000000'', ''P000001'', ''P000002'']
   \<and> set (merchant_id tx_final) \<subseteq> set [''M00000'', ''M00001'']
   \<and> set (the (device_id tx_final)) \<subseteq> set [''D0000000'', ''D0000001'']
   \<and> set (the (ip tx_final)) \<subseteq> set [''192.168.1.1'', ''192.168.1.4'']
   \<and> set (the (card_hash tx_final)) \<subseteq> set [''C00000000'', ''C00000001'']
   \<and> set (the (address_hash tx_final)) \<subseteq> set [''A0000000'', ''A0000001'']"
proof -
  from pipeline_referential_integrity [OF pipeline_small]
  show ?thesis
    using pipeline_small by (auto simp: bronze_final_def)
qed

text \<open>
  Claim C4 (determinism). For a fixed seed (and the state \<open>mt\<close> that seeding derives
  from it) and fixed configurations, two runs of the three generation stages give the
  same result, whatever the seven tables of the store held and whatever state the
  global generator of each process had before the run: either both fail with the same
  error or both leave the same seven tables. Equality is that of the tables; the
  bytes of their parquet files are outside the model.
\<close>

theorem pipeline_deterministic:
  "pipeline mt sim infra ring ga gb gc store
     = pipeline mt sim infra ring ga' gb' gc' store'"
proof -
  have seed_g: "generate_main mt sim ga st = generate_main mt sim ga' st" for st
    unfolding generate_main_def random_seed_def ..
  have seed_e: "enrich_main mt infra gb st = enrich_main mt infra gb' st" for st
    unfolding enrich_main_def random_seed_def ..
  have seed_i: "inject_main mt ring gc st = inject_main mt ring gc' st" for st
    unfolding inject_main_def random_seed_def ..
  have gen: "generate_main mt sim ga' store
      = res_bind (generate_main mt sim ga' store') (\<lambda>s. Inr (store\<lparr>people := people s,
            merchants := merchants s, transactions := transactions s\<rparr>))"
    unfolding generate_main_def write_bronze_def random_seed_def Let_def
    by (auto simp: res_bind_def split: sum.splits)
  have enr: "enrich_main mt infra gb' s1
      = res_bind (enrich_main mt infra gb' s1') (\<lambda>s. Inr (s1\<lparr>devices := devices s,
            ips := ips s, cards := cards s, addresses := addresses s,
            transactions := transactions s\<rparr>))"
    if "transactions s1 = transactions s1'" for s1 s1'
    using that unfolding enrich_main_def random_seed_def Let_def
    by (auto simp: res_bind_def split: sum.splits)
  have right: "pipeline mt sim infra ring ga' gb' gc' store'
      = res_bind (generate_main mt sim ga' store') (\<lambda>s1.
        res_bind (enrich_main mt infra gb' s1) (\<lambda>s2. inject_main mt ring gc' s2))"
    by (simp add: pipeline_def)
  have left: "pipeline mt sim infra ring ga gb gc store
      = res_bind (generate_main mt sim ga' store) (\<lambda>s1.
        res_bind (enrich_main mt infra gb' s1) (\<lambda>s2. inject_main mt ring gc' s2))"
    unfolding pipeline_def using seed_g seed_e seed_i by presburger
  show ?thesis
  proof (cases "generate_main mt sim ga' store'")
    case (Inl e)
    then show ?thesis unfolding left right gen by simp
  next
    case g': (Inr s1')
    define s1 where "s1 = store\<lparr>people := people s1', merchants := merchants s1',
                                 transactions := transactions s1'\<rparr>"
    have g: "generate_main mt sim ga' store = Inr s1"
      unfolding gen g' s1_def by simp
    have tr: "transactions s1 = transactions s1'" by (simp add: s1_def)
    show ?thesis
    proof (cases "enrich_main mt infra gb' s1'")
      case (Inl e)
      then have "enrich_main mt infra gb' s1 = Inl e"
        unfolding enr [OF tr] by simp
      with Inl show ?thesis unfolding left right g g' by simp
    next
      case e': (Inr s2')
      define s2 where "s2 = s1\<lparr>devices := devices s2', ips := ips s2', cards := cards s2',
                               addresses := addresses s2', transactions := transactions s2'\<rparr>"
      have e: "enrich_main mt infra gb' s1 = Inr s2"
        unfolding enr [OF tr] e' s2_def by simp
      from enrich_main_Inr [OF e'] have
        "people s2' = people s1'" "merchants s2' = merchants s1'" by auto
      then have "s2 = s2'"
        by (intro bronze.equality) (simp_all add: s2_def s1_def)
      then show ?thesis
        unfolding left right g g' using e e' by simp
    qed
  qed
qed

end
